theory Spec2Isabelle
  imports Main "HOL-Library.Word" "HOL-Library.Monad_Syntax"
begin

unbundle bit_operations_syntax

section \<open>nadine: endianness conversion (nadine.h)\<close>

text \<open>
  A shallow embedding of the internal primitives and of the per-type function
  families of \<^verbatim>\<open>nadine.h\<close>. The model is for \<^verbatim>\<open>CHAR_BIT == 8\<close> (the
  configuration of \<^verbatim>\<open>nadine_test.c\<close>): an \<^verbatim>\<open>unsigned char\<close> is an 8-bit word.
  \<^verbatim>\<open>unsigned\<close> is modelled at 32 bits. A value of a type \<^verbatim>\<open>T\<close> is its bit
  pattern, a word of \<open>LENGTH('a)\<close> bits; signed and floating-point values are
  their bit patterns too, since every operation of the library is positional.
  What the host does to the bit pattern of a floating-point object that is
  passed, assigned or returned is a parameter of the floating-point functions.
  The shifts of the shift-based functions are the shifts of the bit pattern, at
  a signed type as well (what a compiler for a two's complement host does).
  Each function family is generated by a macro for every type; the model has
  one polymorphic function for each macro, named after it:
  \<open>nadine_convert_UI\<close> for \<^verbatim>\<open>nadine_convert_N\<close> of \<^verbatim>\<open>NADINE_I_IMPL_CVT_UI\<close>,
  \<open>nadine_read_shift\<close> and \<open>nadine_read_copy\<close> for the two definitions of
  \<^verbatim>\<open>nadine_read_N\<close> in \<^verbatim>\<open>NADINE_I_IMPL_RW_UI\<close>, and so on.
\<close>

subsection \<open>Memory\<close>

type_synonym byte = "8 word"
type_synonym unsigned = "32 word"

definition CHAR_BIT :: nat where
  "CHAR_BIT = 8"

text \<open>
  An array of \<^verbatim>\<open>unsigned char\<close> that a pointer designates is the list of its
  bytes; the pointer itself is index 0. An access outside the array is undefined
  behaviour in C and \<open>None\<close> here.
\<close>

type_synonym mem = "byte list"

definition load :: "mem \<Rightarrow> nat \<Rightarrow> byte option" where
  "load m i = (if i < length m then Some (m ! i) else None)"

definition store :: "mem \<Rightarrow> nat \<Rightarrow> byte \<Rightarrow> mem option" where
  "store m i v = (if i < length m then Some (m[i := v]) else None)"

subsection \<open>Endianness values\<close>

definition NADINE_ENDIAN_LITTLE :: unsigned where
  "NADINE_ENDIAN_LITTLE = 0"

definition NADINE_ENDIAN_BIG :: unsigned where
  "NADINE_ENDIAN_BIG = 1"

definition NADINE_ENDIAN_SWAPCHARS :: unsigned where
  "NADINE_ENDIAN_SWAPCHARS = 2"

text \<open>\<^verbatim>\<open>UINT_MAX\<close>: every bit of an \<^verbatim>\<open>unsigned\<close> set.\<close>

definition NADINE_ENDIAN_UNKNOWN :: unsigned where
  "NADINE_ENDIAN_UNKNOWN = - 1"

text \<open>The four values the documentation calls valid: a base order, with or
  without \<^verbatim>\<open>NADINE_ENDIAN_SWAPCHARS\<close>.\<close>

definition valid_endian :: "unsigned \<Rightarrow> bool" where
  "valid_endian e \<longleftrightarrow>
     e = NADINE_ENDIAN_LITTLE \<or> e = NADINE_ENDIAN_BIG \<or>
     e = (NADINE_ENDIAN_LITTLE OR NADINE_ENDIAN_SWAPCHARS) \<or>
     e = (NADINE_ENDIAN_BIG OR NADINE_ENDIAN_SWAPCHARS)"

subsection \<open>Byte primitives\<close>

text \<open>\<^verbatim>\<open>NADINE_I_BSWAP(a, b)\<close>:
  \<^verbatim>\<open>do { unsigned char t = a; a = b; b = t; } while (0)\<close>, on the bytes at
  indices \<open>a\<close> and \<open>b\<close>.\<close>

definition NADINE_I_BSWAP :: "mem \<Rightarrow> nat \<Rightarrow> nat \<Rightarrow> mem option" where
  "NADINE_I_BSWAP m a b = do {
     t \<leftarrow> load m a;
     y \<leftarrow> load m b;
     m1 \<leftarrow> store m a y;
     store m1 b t
   }"

text \<open>\<^verbatim>\<open>nadine_i_memcpy\<close>: \<^verbatim>\<open>while (n--) *dst++ = *src++;\<close>. The index \<open>i\<close>
  is the distance both pointers have advanced.\<close>

fun memcpy_loop :: "mem \<Rightarrow> mem \<Rightarrow> nat \<Rightarrow> nat \<Rightarrow> mem option" where
  "memcpy_loop dst src i 0 = Some dst"
| "memcpy_loop dst src i (Suc n) = do {
     b \<leftarrow> load src i;
     dst1 \<leftarrow> store dst i b;
     memcpy_loop dst1 src (i + 1) n
   }"

definition nadine_i_memcpy :: "mem \<Rightarrow> mem \<Rightarrow> nat \<Rightarrow> mem option" where
  "nadine_i_memcpy p s n = memcpy_loop p s 0 n"

text \<open>\<^verbatim>\<open>nadine_i_memrev\<close>: the loop
  \<^verbatim>\<open>while (a < b) { NADINE_I_BSWAP(*a, *b); ++a, --b; }\<close>.\<close>

function memrev_loop :: "mem \<Rightarrow> nat \<Rightarrow> nat \<Rightarrow> mem option" where
  "memrev_loop m a b =
     (if a < b then do {
        m1 \<leftarrow> NADINE_I_BSWAP m a b;
        memrev_loop m1 (a + 1) (b - 1)
      } else Some m)"
  by pat_completeness auto
termination
  by (relation "measure (\<lambda>(m, a, b). b - a)") auto

declare memrev_loop.simps [simp del]

text \<open>\<^verbatim>\<open>nadine_i_memrev(p, n)\<close>: the \<^verbatim>\<open>switch\<close> on \<open>n\<close> with its cases 1, 2, 4
  and 8, then the general loop from \<^verbatim>\<open>b = &a[n - 1]\<close>. With \<open>n = 0\<close> the
  pointer \<^verbatim>\<open>&a[n - 1]\<close> is not a pointer into the array: \<open>None\<close>.\<close>

definition nadine_i_memrev :: "mem \<Rightarrow> nat \<Rightarrow> mem option" where
  "nadine_i_memrev m n =
     (if n = 1 then Some m
      else if n = 2 then NADINE_I_BSWAP m 0 1
      else if n = 4 then do {
        m1 \<leftarrow> NADINE_I_BSWAP m 0 3;
        NADINE_I_BSWAP m1 1 2
      }
      else if n = 8 then do {
        m1 \<leftarrow> NADINE_I_BSWAP m 0 7;
        m2 \<leftarrow> NADINE_I_BSWAP m1 1 6;
        m3 \<leftarrow> NADINE_I_BSWAP m2 2 5;
        NADINE_I_BSWAP m3 3 4
      }
      else if n = 0 then None
      else memrev_loop m 0 (n - 1))"

text \<open>\<^verbatim>\<open>nadine_i_byteswap\<close>: the loop
  \<^verbatim>\<open>while (a < b) { NADINE_I_BSWAP(a[0], a[1]); a += 2; }\<close> with
  \<^verbatim>\<open>b = &a[n - 1]\<close>.\<close>

function byteswap_loop :: "mem \<Rightarrow> nat \<Rightarrow> nat \<Rightarrow> mem option" where
  "byteswap_loop m a b =
     (if a < b then do {
        m1 \<leftarrow> NADINE_I_BSWAP m a (a + 1);
        byteswap_loop m1 (a + 2) b
      } else Some m)"
  by pat_completeness auto
termination
  by (relation "measure (\<lambda>(m, a, b). b - a)") auto

declare byteswap_loop.simps [simp del]

definition nadine_i_byteswap :: "mem \<Rightarrow> nat \<Rightarrow> mem option" where
  "nadine_i_byteswap m n = (if n = 0 then None else byteswap_loop m 0 (n - 1))"

text \<open>\<^verbatim>\<open>nadine_i_xform(p, n, xf)\<close>:
  \<^verbatim>\<open>if (xf & 1) nadine_i_memrev(p, n); if (xf & 2) nadine_i_byteswap(p, n);\<close>\<close>

definition nadine_i_xform :: "mem \<Rightarrow> nat \<Rightarrow> unsigned \<Rightarrow> mem option" where
  "nadine_i_xform m n xf = do {
     m1 \<leftarrow> (if xf AND 1 \<noteq> 0 then nadine_i_memrev m n else Some m);
     if xf AND 2 \<noteq> 0 then nadine_i_byteswap m1 n else Some m1
   }"

subsection \<open>Word byte order reversal\<close>

text \<open>The standard C forms of \<^verbatim>\<open>NADINE_I_WREV2\<close>, \<^verbatim>\<open>NADINE_I_WREV4\<close> and
  \<^verbatim>\<open>NADINE_I_WREV8\<close>: masks, shifts and the final cast to \<^verbatim>\<open>T\<close>, which is
  the arithmetic of the word type.\<close>

definition NADINE_I_WREV2 :: "'a::len word \<Rightarrow> 'a word" where
  "NADINE_I_WREV2 x =
     push_bit 8 (x AND 0x00FF)
     OR drop_bit 8 (x AND 0xFF00)"

definition NADINE_I_WREV4 :: "'a::len word \<Rightarrow> 'a word" where
  "NADINE_I_WREV4 x =
     push_bit 24 (x AND 0x000000FF)
     OR push_bit 8 (x AND 0x0000FF00)
     OR drop_bit 8 (x AND 0x00FF0000)
     OR drop_bit 24 (x AND 0xFF000000)"

definition NADINE_I_WREV8 :: "'a::len word \<Rightarrow> 'a word" where
  "NADINE_I_WREV8 x =
     push_bit 56 (x AND 0x00000000000000FF)
     OR push_bit 40 (x AND 0x000000000000FF00)
     OR push_bit 24 (x AND 0x0000000000FF0000)
     OR push_bit 8 (x AND 0x00000000FF000000)
     OR drop_bit 8 (x AND 0x000000FF00000000)
     OR drop_bit 24 (x AND 0x0000FF0000000000)
     OR drop_bit 40 (x AND 0x00FF000000000000)
     OR drop_bit 56 (x AND 0xFF00000000000000)"

subsection \<open>Object representation\<close>

text \<open>\<^verbatim>\<open>sizeof(T)\<close> for a type of \<open>LENGTH('a)\<close> bits without padding.\<close>

definition sizeof :: "'a::len itself \<Rightarrow> nat" where
  "sizeof T = LENGTH('a) div CHAR_BIT"

text \<open>The bytes of a value from the least significant to the most
  significant one, and the value of such a sequence of bytes.\<close>

definition le_bytes :: "nat \<Rightarrow> 'a::len word \<Rightarrow> mem" where
  "le_bytes n v = map (\<lambda>i. ucast (drop_bit (8 * i) v)) [0..<n]"

fun le_value :: "mem \<Rightarrow> 'a::len word" where
  "le_value [] = 0"
| "le_value (b # bs) = ucast b OR push_bit 8 (le_value bs)"

text \<open>Exchange of the bytes at indices \<open>2k\<close> and \<open>2k + 1\<close>; a last byte
  without a partner stays.\<close>

fun swap_pairs :: "'b list \<Rightarrow> 'b list" where
  "swap_pairs (x # y # xs) = y # x # swap_pairs xs"
| "swap_pairs xs = xs"

text \<open>Modelled from the spec: the object representation of a value on the
  host, which the C implementation fixes and no source file of the library
  does. The documentation gives the four byte orders: little-endian is the
  bytes from least to most significant, big-endian from most to least
  significant, and \<^verbatim>\<open>NADINE_ENDIAN_SWAPCHARS\<close> exchanges adjacent pairs of
  such a sequence (\<open>0x01020304\<close> is \<open>02 01 04 03\<close> in the PDP-11 order
  \<^verbatim>\<open>NADINE_ENDIAN_BIG | NADINE_ENDIAN_SWAPCHARS\<close>). \<open>obj_layout e\<close> arranges
  the little-endian sequence in the order \<open>e\<close> and \<open>obj_unlayout e\<close> is its
  inverse. Only the four valid orders are meant.\<close>

definition obj_layout :: "unsigned \<Rightarrow> mem \<Rightarrow> mem" where
  "obj_layout e bs =
     (let bs1 = (if e AND 1 \<noteq> 0 then rev bs else bs)
      in if e AND 2 \<noteq> 0 then swap_pairs bs1 else bs1)"

definition obj_unlayout :: "unsigned \<Rightarrow> mem \<Rightarrow> mem" where
  "obj_unlayout e bs =
     (let bs1 = (if e AND 2 \<noteq> 0 then swap_pairs bs else bs)
      in if e AND 1 \<noteq> 0 then rev bs1 else bs1)"

text \<open>\<^verbatim>\<open>NADINE_I_TYPE_PUN\<close> followed by \<^verbatim>\<open>NADINE_I_TYPE_ACCESS\<close>: the
  \<^verbatim>\<open>sizeof(T)\<close> bytes of a value of the host whose byte order for the domain
  of \<^verbatim>\<open>T\<close> is \<open>native\<close>. \<^verbatim>\<open>NADINE_I_TYPE_UNPUN\<close>: the value that such bytes
  represent.\<close>

definition NADINE_I_TYPE_PUN :: "unsigned \<Rightarrow> 'a::len word \<Rightarrow> mem" where
  "NADINE_I_TYPE_PUN native v = obj_layout native (le_bytes (sizeof TYPE('a)) v)"

definition NADINE_I_TYPE_UNPUN :: "unsigned \<Rightarrow> mem \<Rightarrow> 'a::len word" where
  "NADINE_I_TYPE_UNPUN native p = le_value (obj_unlayout native p)"

subsection \<open>Native endianness detection\<close>

text \<open>The body of \<^verbatim>\<open>nadine_endian_native_N\<close> of \<^verbatim>\<open>NADINE_I_IMPL_NN_UI\<close> on
  the bytes \<open>pun\<close> of the punner, \<open>n = sizeof(T)\<close>. The indices
  \<^verbatim>\<open>sizeof(T) - 1\<close> and \<^verbatim>\<open>sizeof(T) - 2\<close> are \<^verbatim>\<open>size_t\<close> values: below zero
  they wrap around to an index outside the array.\<close>

definition nadine_endian_native_probe :: "mem \<Rightarrow> nat \<Rightarrow> unsigned option" where
  "nadine_endian_native_probe pun n = do {
     b0 \<leftarrow> load pun 0;
     if b0 \<noteq> 0 then Some NADINE_ENDIAN_LITTLE
     else do {
       b1 \<leftarrow> (if n < 1 then None else load pun (n - 1));
       if b1 \<noteq> 0 then Some NADINE_ENDIAN_BIG
       else do {
         b2 \<leftarrow> load pun 1;
         if b2 \<noteq> 0 then Some (NADINE_ENDIAN_LITTLE OR NADINE_ENDIAN_SWAPCHARS)
         else do {
           b3 \<leftarrow> (if n < 2 then None else load pun (n - 2));
           if b3 \<noteq> 0 then Some (NADINE_ENDIAN_BIG OR NADINE_ENDIAN_SWAPCHARS)
           else Some NADINE_ENDIAN_UNKNOWN
         }
       }
     }
   }"

text \<open>\<^verbatim>\<open>nadine_endian_native_N\<close> for an integer type on a host of byte order
  \<open>host\<close>: the probe of the bytes of \<^verbatim>\<open>(T)1\<close>.\<close>

definition nadine_endian_native_UI :: "unsigned \<Rightarrow> 'a::len itself \<Rightarrow> unsigned option" where
  "nadine_endian_native_UI host T =
     nadine_endian_native_probe (NADINE_I_TYPE_PUN host (1 :: 'a word)) (sizeof T)"

subsection \<open>Conversion\<close>

text \<open>The last block of \<^verbatim>\<open>nadine_convert_N\<close> of \<^verbatim>\<open>NADINE_I_IMPL_CVT_UI\<close>,
  below the \<^verbatim>\<open>switch\<close>: the value is punned, its bytes are transformed with the
  code \<^verbatim>\<open>native ^ endian\<close> and read back.\<close>

definition nadine_convert_general :: "unsigned \<Rightarrow> unsigned \<Rightarrow> 'a::len word \<Rightarrow> 'a word option" where
  "nadine_convert_general native endian v = do {
     p \<leftarrow> nadine_i_xform (NADINE_I_TYPE_PUN native v) (sizeof TYPE('a)) (native XOR endian);
     Some (NADINE_I_TYPE_UNPUN native p)
   }"

text \<open>\<^verbatim>\<open>nadine_convert_N\<close> of \<^verbatim>\<open>NADINE_I_IMPL_CVT_UI\<close>. \<open>native\<close> is the value
  of \<^verbatim>\<open>NADINE_I_NATIVE_INT(T, N)\<close>, the byte order of the host; \<open>has_wrev8\<close>
  tells whether \<^verbatim>\<open>NADINE_I_WREV8\<close> is defined (\<^verbatim>\<open>NADINE_I_HAS_ULL\<close>), without
  which \<^verbatim>\<open>case 8\<close> falls through to the last block.\<close>

definition nadine_convert_UI :: "bool \<Rightarrow> unsigned \<Rightarrow> unsigned \<Rightarrow> 'a::len word \<Rightarrow> 'a word option" where
  "nadine_convert_UI has_wrev8 native endian v =
     (if native = endian \<or> sizeof TYPE('a) = 1 then Some v
      else if native XOR endian = 1 \<and> CHAR_BIT = 8 \<and> sizeof TYPE('a) = 2
        then Some (NADINE_I_WREV2 v)
      else if native XOR endian = 1 \<and> CHAR_BIT = 8 \<and> sizeof TYPE('a) = 4
        then Some (NADINE_I_WREV4 v)
      else if native XOR endian = 1 \<and> CHAR_BIT = 8 \<and> sizeof TYPE('a) = 8 \<and> has_wrev8
        then Some (NADINE_I_WREV8 v)
      else nadine_convert_general native endian v)"

text \<open>\<^verbatim>\<open>NADINE_I_IMPL_CVT_SI\<close>: the value is aliased to the unsigned type of
  the same width, converted there and aliased back. Both aliasings keep the bit
  pattern, which is the value of the model.\<close>

definition nadine_convert_SI :: "bool \<Rightarrow> unsigned \<Rightarrow> unsigned \<Rightarrow> 'a::len word \<Rightarrow> 'a word option" where
  "nadine_convert_SI has_wrev8 native endian v = do {
     u \<leftarrow> nadine_convert_UI has_wrev8 native endian v;
     Some u
   }"

subsection \<open>Floating-point objects\<close>

text \<open>
  The functions for \<^verbatim>\<open>float\<close> and \<^verbatim>\<open>double\<close> receive, assign
  (\<^verbatim>\<open>pun.uv = value\<close>, \<^verbatim>\<open>value = pun.uv\<close>) and return objects of the
  floating-point type. A host need not move such an object with its bits
  unchanged, and no source file of the library says what the host does: where
  the object travels through the registers of an x87 unit (a 32-bit x86 build),
  a signalling NaN arrives as the quiet NaN of the same payload, its quiet bit
  set. The floating-point functions below take the transfer of the host as
  their parameter \<open>fmove\<close> and apply it at every place where the C function
  receives, assigns or returns an object of type \<^verbatim>\<open>T\<close>. \<open>id\<close> is a host that
  moves the bits as they are; \<open>x87_move_float\<close> and \<open>x87_move_double\<close> are the
  x87 unit at the two types.
\<close>

definition x87_move_float :: "32 word \<Rightarrow> 32 word" where
  "x87_move_float v =
     (if v AND 0x7F800000 = 0x7F800000 \<and> v AND 0x007FFFFF \<noteq> 0
      then v OR 0x00400000 else v)"

definition x87_move_double :: "64 word \<Rightarrow> 64 word" where
  "x87_move_double v =
     (if v AND 0x7FF0000000000000 = 0x7FF0000000000000 \<and> v AND 0x000FFFFFFFFFFFFF \<noteq> 0
      then v OR 0x0008000000000000 else v)"

text \<open>\<^verbatim>\<open>NADINE_I_IMPL_CVT_F\<close>: no early return and no \<^verbatim>\<open>switch\<close>. \<open>native\<close>
  is the value of \<^verbatim>\<open>NADINE_I_NATIVE_FLOAT(T, N)\<close>. The argument is received and
  assigned to the punner; the result is assigned from the punner and returned.\<close>

definition nadine_convert_F ::
  "('a::len word \<Rightarrow> 'a word) \<Rightarrow> unsigned \<Rightarrow> unsigned \<Rightarrow> 'a word \<Rightarrow> 'a word option" where
  "nadine_convert_F fmove native endian v = do {
     p \<leftarrow> nadine_i_xform (NADINE_I_TYPE_PUN native (fmove (fmove v))) (sizeof TYPE('a))
            (native XOR endian);
     Some (fmove (fmove (NADINE_I_TYPE_UNPUN native p)))
   }"

subsection \<open>Reading and writing\<close>

text \<open>\<^verbatim>\<open>NADINE_I_INDEX(endian, i)\<close> with the \<open>n\<close> of the enclosing function.
  It is only evaluated with \<open>i < n\<close>, where \<^verbatim>\<open>n - i - 1\<close> does not wrap.\<close>

definition NADINE_I_INDEX :: "unsigned \<Rightarrow> nat \<Rightarrow> nat \<Rightarrow> nat" where
  "NADINE_I_INDEX endian n i =
     (if endian AND 1 \<noteq> 0 then n - i - 1 else i) XOR (if endian AND 2 \<noteq> 0 then 1 else 0)"

text \<open>The shift-based \<^verbatim>\<open>nadine_read_N\<close> (\<^verbatim>\<open>NADINE_I_USE_SHIFT_RW\<close>):
  \<^verbatim>\<open>for (i = 0; i < n; ++i) v |= (T)(src[NADINE_I_INDEX(endian, i)]) << (CHAR_BIT * i);\<close>\<close>

function read_loop :: "unsigned \<Rightarrow> mem \<Rightarrow> nat \<Rightarrow> nat \<Rightarrow> 'a::len word \<Rightarrow> 'a word option" where
  "read_loop endian src n i v =
     (if i < n then do {
        b \<leftarrow> load src (NADINE_I_INDEX endian n i);
        read_loop endian src n (i + 1) (v OR push_bit (CHAR_BIT * i) (ucast b))
      } else Some v)"
  by pat_completeness auto
termination
  by (relation "measure (\<lambda>(endian, src, n, i, v). n - i)") auto

declare read_loop.simps [simp del]

definition nadine_read_shift :: "unsigned \<Rightarrow> mem \<Rightarrow> 'a::len word option" where
  "nadine_read_shift endian s = read_loop endian s (sizeof TYPE('a)) 0 0"

text \<open>The shift-based \<^verbatim>\<open>nadine_write_N\<close>:
  \<^verbatim>\<open>for (i = 0; i < n; ++i) dst[NADINE_I_INDEX(endian, i)] = (unsigned char)(v >> (CHAR_BIT * i));\<close>\<close>

function write_loop :: "unsigned \<Rightarrow> mem \<Rightarrow> 'a::len word \<Rightarrow> nat \<Rightarrow> nat \<Rightarrow> mem option" where
  "write_loop endian dst v n i =
     (if i < n then do {
        dst1 \<leftarrow> store dst (NADINE_I_INDEX endian n i) (ucast (drop_bit (CHAR_BIT * i) v));
        write_loop endian dst1 v n (i + 1)
      } else Some dst)"
  by pat_completeness auto
termination
  by (relation "measure (\<lambda>(endian, dst, v, n, i). n - i)") auto

declare write_loop.simps [simp del]

definition nadine_write_shift :: "unsigned \<Rightarrow> mem \<Rightarrow> 'a::len word \<Rightarrow> mem option" where
  "nadine_write_shift endian d v = write_loop endian d v (sizeof TYPE('a)) 0"

text \<open>The copying \<^verbatim>\<open>nadine_read_N\<close> and \<^verbatim>\<open>nadine_write_N\<close>. The punner \<open>p\<close>
  is a local array of \<^verbatim>\<open>sizeof(T)\<close> bytes; its first contents are never read.\<close>

definition nadine_read_copy :: "unsigned \<Rightarrow> unsigned \<Rightarrow> mem \<Rightarrow> 'a::len word option" where
  "nadine_read_copy native endian s = do {
     p \<leftarrow> nadine_i_memcpy (replicate (sizeof TYPE('a)) 0) s (sizeof TYPE('a));
     p1 \<leftarrow> nadine_i_xform p (sizeof TYPE('a)) (native XOR endian);
     Some (NADINE_I_TYPE_UNPUN native p1)
   }"

definition nadine_write_copy :: "unsigned \<Rightarrow> unsigned \<Rightarrow> mem \<Rightarrow> 'a::len word \<Rightarrow> mem option" where
  "nadine_write_copy native endian d v = do {
     p1 \<leftarrow> nadine_i_xform (NADINE_I_TYPE_PUN native v) (sizeof TYPE('a)) (native XOR endian);
     nadine_i_memcpy d p1 (sizeof TYPE('a))
   }"

text \<open>\<^verbatim>\<open>NADINE_I_IMPL_RW_F\<close>, with \<open>native\<close> the value of
  \<^verbatim>\<open>NADINE_I_NATIVE_FLOAT(T, N)\<close>. \<^verbatim>\<open>nadine_read_N\<close> assigns the value from the
  punner (\<^verbatim>\<open>v = p.uv\<close>) and returns it; \<^verbatim>\<open>nadine_write_N\<close> receives the
  value and assigns it to the punner (\<^verbatim>\<open>p.uv = v\<close>).\<close>

definition nadine_read_F ::
  "('a::len word \<Rightarrow> 'a word) \<Rightarrow> unsigned \<Rightarrow> unsigned \<Rightarrow> mem \<Rightarrow> 'a word option" where
  "nadine_read_F fmove native endian s = do {
     p \<leftarrow> nadine_i_memcpy (replicate (sizeof TYPE('a)) 0) s (sizeof TYPE('a));
     p1 \<leftarrow> nadine_i_xform p (sizeof TYPE('a)) (native XOR endian);
     Some (fmove (fmove (NADINE_I_TYPE_UNPUN native p1)))
   }"

definition nadine_write_F ::
  "('a::len word \<Rightarrow> 'a word) \<Rightarrow> unsigned \<Rightarrow> unsigned \<Rightarrow> mem \<Rightarrow> 'a word \<Rightarrow> mem option" where
  "nadine_write_F fmove native endian d v = do {
     p1 \<leftarrow> nadine_i_xform (NADINE_I_TYPE_PUN native (fmove (fmove v))) (sizeof TYPE('a))
             (native XOR endian);
     nadine_i_memcpy d p1 (sizeof TYPE('a))
   }"

section \<open>Properties\<close>

subsection \<open>The byte primitives\<close>

lemma length_swap_pairs [simp]: "length (swap_pairs xs) = length xs"
  by (induction xs rule: swap_pairs.induct) auto

lemma swap_pairs_idem [simp]: "swap_pairs (swap_pairs xs) = xs"
  by (induction xs rule: swap_pairs.induct) auto

lemma swap_pairs_nth:
  "i < length xs \<Longrightarrow>
   swap_pairs xs ! i =
     xs ! (if even i then (if Suc i < length xs then Suc i else i) else i - 1)"
proof (induction xs arbitrary: i rule: swap_pairs.induct)
  case (1 x y xs)
  show ?case
  proof (cases i)
    case 0
    then show ?thesis by simp
  next
    case (Suc j)
    show ?thesis
    proof (cases j)
      case 0
      with Suc show ?thesis by simp
    next
      case (Suc k)
      with \<open>i = Suc j\<close> 1 show ?thesis by (auto elim: oddE)
    qed
  qed
qed auto

lemma BSWAP_Some:
  "a < length m \<Longrightarrow> b < length m \<Longrightarrow>
   NADINE_I_BSWAP m a b = Some (m[a := m ! b, b := m ! a])"
  by (simp add: NADINE_I_BSWAP_def load_def store_def)

lemma memcpy_loop_Some:
  "i + n \<le> length dst \<Longrightarrow> i + n \<le> length src \<Longrightarrow>
   memcpy_loop dst src i n = Some (take i dst @ take n (drop i src) @ drop (i + n) dst)"
proof (induction n arbitrary: dst i)
  case 0
  then show ?case by simp
next
  case (Suc n)
  have "memcpy_loop dst src i (Suc n) = memcpy_loop (dst[i := src ! i]) src (i + 1) n"
    using Suc.prems by (simp add: load_def store_def)
  also have "\<dots> = Some (take (i + 1) (dst[i := src ! i]) @ take n (drop (i + 1) src)
                        @ drop (i + 1 + n) (dst[i := src ! i]))"
    using Suc.prems by (intro Suc.IH) auto
  also have "take (i + 1) (dst[i := src ! i]) = take i dst @ [src ! i]"
    using Suc.prems by (simp add: take_Suc_conv_app_nth)
  also have "drop (i + 1 + n) (dst[i := src ! i]) = drop (i + Suc n) dst"
    by simp
  finally have eq: "memcpy_loop dst src i (Suc n)
      = Some ((take i dst @ [src ! i]) @ take n (drop (i + 1) src) @ drop (i + Suc n) dst)" .
  have "drop i src = src ! i # drop (Suc i) src"
    using Suc.prems by (simp add: Cons_nth_drop_Suc)
  then have "take (Suc n) (drop i src) = src ! i # take n (drop (i + 1) src)"
    by simp
  then have "(take i dst @ [src ! i]) @ take n (drop (i + 1) src) @ drop (i + Suc n) dst
     = take i dst @ take (Suc n) (drop i src) @ drop (i + Suc n) dst" by simp
  with eq show ?case by simp
qed

lemma memcpy_Some:
  "n \<le> length dst \<Longrightarrow> n \<le> length src \<Longrightarrow>
   nadine_i_memcpy dst src n = Some (take n src @ drop n dst)"
  by (simp add: nadine_i_memcpy_def memcpy_loop_Some)

lemma byteswap_loop_append:
  "byteswap_loop (pre @ xs @ post) (length pre) (length pre + length xs - 1)
     = Some (pre @ swap_pairs xs @ post)"
proof (induction xs arbitrary: pre rule: swap_pairs.induct)
  case (1 x y xs)
  have sw: "NADINE_I_BSWAP (pre @ x # y # xs @ post) (length pre) (Suc (length pre))
         = Some (pre @ y # x # xs @ post)"
    by (simp add: BSWAP_Some nth_append list_update_append)
  show ?case
    using 1 [of "pre @ [y, x]"] by (subst byteswap_loop.simps) (simp add: sw)
qed (subst byteswap_loop.simps, auto)+

lemma byteswap_Some:
  assumes "0 < n" "n \<le> length m"
  shows "nadine_i_byteswap m n = Some (swap_pairs (take n m) @ drop n m)"
proof -
  have "byteswap_loop ([] @ take n m @ drop n m) (length ([] :: mem))
          (length ([] :: mem) + length (take n m) - 1)
        = Some ([] @ swap_pairs (take n m) @ drop n m)"
    by (rule byteswap_loop_append)
  moreover have "length (take n m) = n"
    using assms by simp
  ultimately show ?thesis
    using assms by (simp only: nadine_i_byteswap_def append_Nil list.size append_take_drop_id) simp
qed

lemma memrev_loop_nth:
  "b < length m \<Longrightarrow>
   \<exists>r. memrev_loop m a b = Some r \<and> length r = length m \<and>
       (\<forall>k<length m. r ! k = (if a \<le> k \<and> k \<le> b then m ! (a + b - k) else m ! k))"
proof (induction m a b rule: memrev_loop.induct)
  case (1 m a b)
  show ?case
  proof (cases "a < b")
    case False
    then show ?thesis
      by (subst memrev_loop.simps) (auto intro: arg_cong [where f = "nth m"])
  next
    case True
    let ?m1 = "m[a := m ! b, b := m ! a]"
    have sw: "NADINE_I_BSWAP m a b = Some ?m1"
      using True "1.prems" by (simp add: BSWAP_Some)
    have "b - 1 < length ?m1"
      using "1.prems" by simp
    from "1.IH" [OF True sw this] obtain r where r: "memrev_loop ?m1 (a + 1) (b - 1) = Some r" "length r = length ?m1"
      "\<forall>k<length ?m1. r ! k = (if a + 1 \<le> k \<and> k \<le> b - 1 then ?m1 ! (a + 1 + (b - 1) - k) else ?m1 ! k)"
      by blast
    have "memrev_loop m a b = Some r"
      using True r(1) by (subst memrev_loop.simps) (simp add: sw)
    moreover have "r ! k = (if a \<le> k \<and> k \<le> b then m ! (a + b - k) else m ! k)"
      if "k < length m" for k
      using r(3) [rule_format, of k] that True "1.prems"
      by (auto simp: nth_list_update)
    ultimately show ?thesis using r(2) by simp
  qed
qed


lemma memrev_loop_rev:
  assumes "0 < n" "n \<le> length m"
  shows "memrev_loop m 0 (n - 1) = Some (rev (take n m) @ drop n m)"
proof -
  from assms have "n - 1 < length m" by simp
  from memrev_loop_nth [OF this, of 0] obtain r where
    r: "memrev_loop m 0 (n - 1) = Some r" "length r = length m"
       "\<forall>k<length m. r ! k = (if 0 \<le> k \<and> k \<le> n - 1 then m ! (0 + (n - 1) - k) else m ! k)"
    by blast
  have "r = rev (take n m) @ drop n m"
  proof (rule nth_equalityI)
    show "length r = length (rev (take n m) @ drop n m)"
      using r(2) assms by simp
  next
    fix k assume "k < length r"
    then have k: "k < length m" using r(2) by simp
    show "r ! k = (rev (take n m) @ drop n m) ! k"
    proof (cases "k < n")
      case True
      then have "k \<le> n - 1" by simp
      with True show ?thesis
        using r(3) [rule_format, OF k] assms by (simp add: nth_append rev_nth)
    next
      case False
      then have "\<not> k \<le> n - 1" using assms by simp
      with False show ?thesis
        using r(3) [rule_format, OF k] assms k by (simp add: nth_append min_def)
    qed
  qed
  with r(1) show ?thesis by simp
qed

lemma memrev_special_cases:
  "0 < n \<Longrightarrow> nadine_i_memrev m n = memrev_loop m 0 (n - 1)"
  by (simp add: nadine_i_memrev_def memrev_loop.simps
        numeral_2_eq_2 [symmetric] numeral_3_eq_3 [symmetric])

lemma memrev_Some:
  "0 < n \<Longrightarrow> n \<le> length m \<Longrightarrow> nadine_i_memrev m n = Some (rev (take n m) @ drop n m)"
  by (simp only: memrev_special_cases memrev_loop_rev)

lemma xform_Some:
  assumes "0 < n" "n \<le> length m"
  shows "nadine_i_xform m n xf =
     Some ((if xf AND 2 \<noteq> 0 then swap_pairs else id)
             ((if xf AND 1 \<noteq> 0 then rev else id) (take n m)) @ drop n m)"
proof -
  let ?m1 = "(if xf AND 1 \<noteq> 0 then rev else id) (take n m) @ drop n m"
  have 1: "(if xf AND 1 \<noteq> 0 then nadine_i_memrev m n else Some m) = Some ?m1"
    using assms by (simp add: memrev_Some)
  have len: "n \<le> length ?m1" using assms by simp
  have tk: "take n ?m1 = (if xf AND 1 \<noteq> 0 then rev else id) (take n m)"
    and dr: "drop n ?m1 = drop n m"
    using assms by simp_all
  have 2: "(if xf AND 2 \<noteq> 0 then nadine_i_byteswap ?m1 n else Some ?m1)
    = Some ((if xf AND 2 \<noteq> 0 then swap_pairs else id) (take n ?m1) @ drop n ?m1)"
    using assms(1) len by (simp add: byteswap_Some del: take_append drop_append)
  show ?thesis
    unfolding nadine_i_xform_def 1 by (simp only: bind.simps 2 tk dr)
qed

text \<open>
  C7. On a span of \<open>n \<ge> 1\<close> bytes, \<^verbatim>\<open>nadine_i_xform\<close> succeeds and leaves the
  span permuted as its code says: reversed end to end exactly when the low bit
  of the code is set, then with adjacent pairs exchanged exactly when the second
  bit is set (reversal before the exchange when both are set); bytes beyond the
  span stay. The \<^verbatim>\<open>switch\<close> cases 1, 2, 4 and 8 of \<^verbatim>\<open>nadine_i_memrev\<close> give
  what its general two-pointer loop gives, which is the reversed span.
\<close>

theorem xform_permutation:
  assumes "0 < n" and "n \<le> length m"
  shows "nadine_i_xform m n xf =
           Some ((if xf AND 2 \<noteq> 0 then swap_pairs else id)
                   ((if xf AND 1 \<noteq> 0 then rev else id) (take n m)) @ drop n m)
         \<and> nadine_i_memrev m n = memrev_loop m 0 (n - 1)
         \<and> memrev_loop m 0 (n - 1) = Some (rev (take n m) @ drop n m)"
  using assms by (simp only: xform_Some memrev_special_cases memrev_loop_rev simp_thms)

theorem xform_permutation_witness:
  "0 < (4::nat) \<and> 4 \<le> length [1, 2, 3, 4 :: byte]
   \<and> nadine_i_xform [1, 2, 3, 4] 4 3 = Some [3, 4, 1, 2]
   \<and> nadine_i_memrev [1, 2, 3, 4] 4 = memrev_loop [1, 2, 3, 4] 0 (4 - 1)
   \<and> memrev_loop [1, 2, 3, 4] 0 (4 - 1) = Some [4, 3, 2, 1]"
proof -
  have h1: "0 < (4::nat)" and h2: "4 \<le> length [1, 2, 3, 4 :: byte]"
    by simp_all
  from xform_permutation [OF h1 h2, of 3] show ?thesis
    by simp
qed

text \<open>
  C10. \<^verbatim>\<open>nadine_i_byteswap\<close> on a span of any length \<open>n \<ge> 1\<close>, even or odd,
  inside an array of at least \<open>n\<close> bytes: it returns, every access is inside the
  span (the array may be exactly \<open>n\<close> bytes long), the bytes \<open>2k\<close> and \<open>2k + 1\<close>
  of every pair inside the span are exchanged, the last byte of a span of odd
  length stays, and so does every byte beyond the span.
\<close>

theorem byteswap_total_in_bounds:
  assumes "1 \<le> n" and "n \<le> length m"
  shows "\<exists>r. nadine_i_byteswap m n = Some r \<and> length r = length m
           \<and> (\<forall>k. 2 * k + 1 < n \<longrightarrow> r ! (2 * k) = m ! (2 * k + 1) \<and> r ! (2 * k + 1) = m ! (2 * k))
           \<and> (odd n \<longrightarrow> r ! (n - 1) = m ! (n - 1))
           \<and> (\<forall>j. n \<le> j \<and> j < length m \<longrightarrow> r ! j = m ! j)"
proof -
  let ?r = "swap_pairs (take n m) @ drop n m"
  have r: "nadine_i_byteswap m n = Some ?r"
    using assms by (simp add: byteswap_Some)
  have len: "length ?r = length m"
    using assms by simp
  have pairs: "?r ! (2 * k) = m ! (2 * k + 1) \<and> ?r ! (2 * k + 1) = m ! (2 * k)"
    if "2 * k + 1 < n" for k
    using that assms by (simp add: nth_append swap_pairs_nth)
  have last: "?r ! (n - 1) = m ! (n - 1)" if "odd n"
    using that assms by (simp add: nth_append swap_pairs_nth)
  have rest: "?r ! j = m ! j" if "n \<le> j" "j < length m" for j
    using that assms by (simp add: nth_append)
  from r len pairs last rest show ?thesis by blast
qed

theorem byteswap_total_in_bounds_witness:
  "1 \<le> (3::nat) \<and> 3 \<le> length [10, 20, 30 :: byte]
   \<and> (\<exists>r. nadine_i_byteswap [10, 20, 30] 3 = Some r \<and> length r = length [10, 20, 30 :: byte]
        \<and> (\<forall>k. 2 * k + 1 < (3::nat) \<longrightarrow>
              r ! (2 * k) = [10, 20, 30] ! (2 * k + 1) \<and> r ! (2 * k + 1) = [10, 20, 30] ! (2 * k))
        \<and> (odd (3::nat) \<longrightarrow> r ! (3 - 1) = [10, 20, 30] ! (3 - 1))
        \<and> (\<forall>j. 3 \<le> j \<and> j < length [10, 20, 30 :: byte] \<longrightarrow> r ! j = [10, 20, 30] ! j))"
proof -
  have h1: "1 \<le> (3::nat)" and h2: "3 \<le> length [10, 20, 30 :: byte]"
    by simp_all
  from byteswap_total_in_bounds [OF h1 h2] h1 h2 show ?thesis
    by blast
qed

subsection \<open>Byte orders as permutations\<close>

lemma valid_endian_cases:
  "valid_endian e \<longleftrightarrow> e = 0 \<or> e = 1 \<or> e = 2 \<or> e = 3"
  by (auto simp: valid_endian_def NADINE_ENDIAN_LITTLE_def NADINE_ENDIAN_BIG_def
      NADINE_ENDIAN_SWAPCHARS_def)

lemma length_obj_layout [simp]: "length (obj_layout e bs) = length bs"
  by (simp add: obj_layout_def Let_def)

lemma length_obj_unlayout [simp]: "length (obj_unlayout e bs) = length bs"
  by (simp add: obj_unlayout_def Let_def)

lemma obj_unlayout_layout [simp]: "obj_unlayout e (obj_layout e bs) = bs"
  by (simp add: obj_unlayout_def obj_layout_def Let_def)

lemma xform_layout:
  "0 < n \<Longrightarrow> n \<le> length m \<Longrightarrow>
   nadine_i_xform m n xf = Some (obj_layout xf (take n m) @ drop n m)"
  by (simp add: xform_Some obj_layout_def Let_def)

lemma test_bit0: "x AND 1 \<noteq> 0 \<longleftrightarrow> bit x 0" for x :: unsigned
  using and_exp_eq_0_iff_not_bit [of x 0] by simp

lemma test_bit1: "x AND 2 \<noteq> 0 \<longleftrightarrow> bit x 1" for x :: unsigned
  using and_exp_eq_0_iff_not_bit [of x 1] by simp

lemma rev_swap_pairs:
  assumes e: "even (length xs)"
  shows "rev (swap_pairs xs) = swap_pairs (rev xs)"
proof (rule nth_equalityI)
  show "length (rev (swap_pairs xs)) = length (swap_pairs (rev xs))" by simp
next
  fix i
  assume "i < length (rev (swap_pairs xs))"
  then have i: "i < length xs" by simp
  define n where "n = length xs"
  have n: "even n" "i < n" using e i by (simp_all add: n_def)
  define f where "f j = (if even j then (if Suc j < n then Suc j else j) else j - 1)" for j
  have fi: "f i < n" using n by (auto simp: f_def)
  have idx: "f (n - Suc i) = n - Suc (f i)"
  proof (cases "even i")
    case True
    with n have "Suc i < n" by (auto elim!: evenE)
    with True n show ?thesis by (simp add: f_def) 
  next
    case False
    then have i0: "0 < i" by (cases i) auto
    from False n have ev: "even (n - Suc i)" by simp
    from i0 n have lt: "Suc (n - Suc i) < n" by arith
    have "f (n - Suc i) = Suc (n - Suc i)"
      unfolding f_def using ev lt by (simp only: if_True)
    moreover have "f i = i - 1"
      unfolding f_def using False by (simp only: if_False)
    moreover from i0 n have "Suc (n - Suc i) = n - Suc (i - 1)" by arith
    ultimately show ?thesis by (simp only:)
  qed
  have "rev (swap_pairs xs) ! i = xs ! f (n - Suc i)"
    using n by (simp add: rev_nth swap_pairs_nth f_def n_def)
  also have "\<dots> = xs ! (n - Suc (f i))" by (simp only: idx)
  finally have lhs: "rev (swap_pairs xs) ! i = xs ! (n - Suc (f i))" .
  have "swap_pairs (rev xs) ! i = rev xs ! f i"
    using n by (simp add: swap_pairs_nth f_def n_def)
  also have "\<dots> = xs ! (n - Suc (f i))"
    using fi by (simp add: rev_nth n_def)
  finally show "rev (swap_pairs xs) ! i = swap_pairs (rev xs) ! i"
    using lhs by simp
qed

lemma layout_compose_write:
  assumes "even (length bs)"
  shows "obj_layout (native XOR endian) (obj_layout native bs) = obj_layout endian bs"
  using assms
  by (auto simp: obj_layout_def test_bit0 test_bit1 bit_xor_iff rev_swap_pairs)

lemma layout_compose_read:
  assumes "even (length bs)"
  shows "obj_unlayout native (obj_layout (native XOR endian) bs) = obj_layout endian bs"
  using assms 
  by (auto simp: obj_layout_def obj_unlayout_def test_bit0 test_bit1 bit_xor_iff rev_swap_pairs)

subsection \<open>Values and their bytes\<close>

lemma bit_le_value:
  "bit (le_value bs :: 'a::len word) k \<longleftrightarrow>
     k < LENGTH('a) \<and> k div 8 < length bs \<and> bit (bs ! (k div 8)) (k mod 8)"
proof (induction bs arbitrary: k)
  case Nil
  then show ?case by simp
next
  case (Cons b bs)
  show ?case
  proof (cases "k < 8")
    case True
    then show ?thesis
      by (auto simp: bit_simps dest: bit_imp_le_length)
  next
    case False
    then have k8: "8 \<le> k" by simp
    have "k div 8 = Suc ((k - 8) div 8)"
      using k8 by (simp add: le_div_geq)
    moreover have "k mod 8 = (k - 8) mod 8"
      using k8 by (simp add: le_mod_geq)
    ultimately show ?thesis
      using k8
      by (auto simp: bit_simps Cons.IH nth_Cons' dest: bit_imp_le_length)
  qed
qed

lemma bit_le_bytes:
  "i < n \<Longrightarrow> bit (le_bytes n (v :: 'a::len word) ! i) j \<longleftrightarrow> j < 8 \<and> bit v (8 * i + j)"
  by (auto simp: le_bytes_def bit_simps ac_simps)

lemma length_le_bytes [simp]: "length (le_bytes n v) = n"
  by (simp add: le_bytes_def)

lemma le_value_le_bytes:
  fixes v :: "'a::len word"
  assumes "LENGTH('a) \<le> 8 * n"
  shows "le_value (le_bytes n v) = v"
proof (rule bit_word_eqI)
  fix k assume k: "k < LENGTH('a)"
  with assms have "k div 8 < n" by (simp add: less_mult_imp_div_less mult.commute)
  then show "bit (le_value (le_bytes n v) :: 'a word) k = bit v k"
    using k by (simp add: bit_le_value bit_le_bytes)
qed

subsection \<open>The index function and the two strategies of reading and writing\<close>

lemma sizeof_facts:
  assumes "16 dvd LENGTH('a::len)"
  shows "even (sizeof TYPE('a))" "0 < sizeof TYPE('a)" "8 * sizeof TYPE('a) = LENGTH('a)"
proof -
  from assms obtain k where k: "LENGTH('a) = 16 * k" by (elim dvdE)
  then have "0 < k" by (cases k) simp_all
  with k show "even (sizeof TYPE('a))" "0 < sizeof TYPE('a)" "8 * sizeof TYPE('a) = LENGTH('a)"
    by (simp_all add: sizeof_def CHAR_BIT_def)
qed

lemma xor_Suc_0_nat: "j XOR Suc 0 = (if even j then Suc j else j - Suc 0)"
  using xor_one_eq [of j] by simp

lemma INDEX_alt:
  "NADINE_I_INDEX e n i =
     (let j = (if bit e 0 then n - i - 1 else i)
      in if bit e 1 then (if even j then j + 1 else j - 1) else j)"
  by (simp add: NADINE_I_INDEX_def test_bit0 test_bit1 xor_Suc_0_nat Let_def)

lemma even_less_even:
  "even (n::nat) \<Longrightarrow> even j \<Longrightarrow> j < n \<Longrightarrow> Suc j < n"
  by (auto elim!: evenE)

lemma INDEX_lt:
  assumes "even n" "i < n"
  shows "NADINE_I_INDEX e n i < n"
proof (cases "bit e 0")
  case True
  have 1: "n - Suc i < n" using assms by simp
  show ?thesis
  proof (cases "even (n - Suc i)")
    case e: True
    from even_less_even [OF assms(1) e 1] True 1 e show ?thesis
      by (simp add: INDEX_alt Let_def)
  next
    case False
    with True 1 show ?thesis
      by (simp add: INDEX_alt Let_def)
  qed
next
  case False
  show ?thesis
  proof (cases "even i")
    case e: True
    from even_less_even [OF assms(1) e assms(2)] False assms e show ?thesis
      by (simp add: INDEX_alt Let_def)
  next
    case o: False
    have "i - Suc 0 < n" using assms by simp
    with o False assms show ?thesis
      by (simp add: INDEX_alt Let_def)
  qed
qed

lemma INDEX_invol:
  assumes "even n" "i < n"
  shows "NADINE_I_INDEX e n (NADINE_I_INDEX e n i) = i"
proof (cases "even i")
  case True
  note s = even_less_even [OF assms(1) True assms(2)]
  show ?thesis
  proof (cases "bit e 0")
    case b: True
    with True s assms show ?thesis
      by (cases "bit e 1") (simp_all add: INDEX_alt Let_def Suc_diff_Suc)
  next
    case b: False
    with True s assms show ?thesis
      by (cases "bit e 1") (simp_all add: INDEX_alt Let_def)
  qed
next
  case False
  then have p: "0 < i" by (rule odd_pos)
  show ?thesis
  proof (cases "bit e 0")
    case b: True
    with False p assms show ?thesis
      by (cases "bit e 1") (simp_all add: INDEX_alt Let_def Suc_diff_Suc)
  next
    case b: False
    with False p assms show ?thesis
      by (cases "bit e 1") (simp_all add: INDEX_alt Let_def)
  qed
qed

lemma obj_layout_nth:
  assumes "even (length bs)" "i < length bs"
  shows "obj_layout e bs ! i = bs ! NADINE_I_INDEX e (length bs) i"
proof (cases "even i")
  case True
  note s = even_less_even [OF assms(1) True assms(2)]
  show ?thesis
  proof (cases "bit e 0")
    case b: True
    with True s assms show ?thesis
      by (cases "bit e 1")
        (simp_all add: obj_layout_def INDEX_alt Let_def test_bit0 test_bit1 swap_pairs_nth rev_nth)
  next
    case b: False
    with True s assms show ?thesis
      by (cases "bit e 1")
        (simp_all add: obj_layout_def INDEX_alt Let_def test_bit0 test_bit1 swap_pairs_nth rev_nth)
  qed
next
  case False
  then have p: "0 < i" by (rule odd_pos)
  show ?thesis
  proof (cases "bit e 0")
    case b: True
    with False p assms show ?thesis
      by (cases "bit e 1")
        (simp_all add: obj_layout_def INDEX_alt Let_def test_bit0 test_bit1 swap_pairs_nth rev_nth
          Suc_diff_Suc)
  next
    case b: False
    with False p assms show ?thesis
      by (cases "bit e 1")
        (simp_all add: obj_layout_def INDEX_alt Let_def test_bit0 test_bit1 swap_pairs_nth rev_nth)
  qed
qed

lemma map_INDEX_layout:
  assumes "even n" "n \<le> length src"
  shows "map (\<lambda>j. src ! NADINE_I_INDEX e n j) [0..<n] = obj_layout e (take n src)"
proof (rule nth_equalityI)
  show "length (map (\<lambda>j. src ! NADINE_I_INDEX e n j) [0..<n]) = length (obj_layout e (take n src))"
    using assms by simp
next
  fix i assume "i < length (map (\<lambda>j. src ! NADINE_I_INDEX e n j) [0..<n])"
  then have i: "i < n" by simp
  have len: "length (take n src) = n" using assms by simp
  have "obj_layout e (take n src) ! i = take n src ! NADINE_I_INDEX e n i"
    using obj_layout_nth [of "take n src" i e] assms i len by simp
  also have "\<dots> = src ! NADINE_I_INDEX e n i"
    using INDEX_lt [OF assms(1) i] by simp
  finally show "map (\<lambda>j. src ! NADINE_I_INDEX e n j) [0..<n] ! i = obj_layout e (take n src) ! i"
    using i by simp
qed


lemma read_loop_Some:
  assumes "\<forall>j<n. NADINE_I_INDEX e n j < length src"
  shows "read_loop e src n i v =
     Some (v OR push_bit (8 * i) (le_value (map (\<lambda>j. src ! NADINE_I_INDEX e n j) [i..<n])))"
proof (induction "n - i" arbitrary: i v)
  case 0
  then show ?case
    by (subst read_loop.simps) simp
next
  case (Suc k)
  then have i: "i < n" and k: "k = n - (i + 1)" by simp_all
  have ld: "load src (NADINE_I_INDEX e n i) = Some (src ! NADINE_I_INDEX e n i)"
    using assms i by (simp add: load_def)
  have "read_loop e src n i v =
        read_loop e src n (i + 1) (v OR push_bit (8 * i) (ucast (src ! NADINE_I_INDEX e n i)))"
    using i by (subst read_loop.simps) (simp add: ld CHAR_BIT_def)
  also note Suc.hyps(1) [OF k]
  finally show ?case
    using i by (simp add: upt_conv_Cons or.assoc add.commute)
qed

lemma write_loop_Some:
  assumes "even n" "n \<le> length dst" "i \<le> n"
  shows "\<exists>r. write_loop e dst v n i = Some r \<and> length r = length dst \<and>
     (\<forall>p<length dst. r ! p =
        (if p < n \<and> i \<le> NADINE_I_INDEX e n p
         then ucast (drop_bit (8 * NADINE_I_INDEX e n p) v) else dst ! p))"
  using assms(2,3)
proof (induction "n - i" arbitrary: i dst)
  case 0
  then have "i = n" by simp
  moreover have "\<not> n \<le> NADINE_I_INDEX e n p" if "p < n" for p
    using INDEX_lt [OF assms(1) that, of e] by simp
  ultimately show ?case
    by (subst write_loop.simps) auto
next
  case (Suc k)
  then have i: "i < n" and k: "k = n - (i + 1)" by simp_all
  let ?x = "NADINE_I_INDEX e n i"
  let ?d = "dst[?x := ucast (drop_bit (8 * i) v)]"
  have x: "?x < n" using INDEX_lt [OF assms(1) i] .
  have st: "store dst ?x (ucast (drop_bit (8 * i) v)) = Some ?d"
    using x Suc.prems by (simp add: store_def)
  have unf: "write_loop e dst v n i = write_loop e ?d v n (i + 1)"
    using i by (subst write_loop.simps) (simp add: st CHAR_BIT_def)
  from Suc.hyps(1) [OF k, of ?d] Suc.prems i obtain r where
    r: "write_loop e ?d v n (i + 1) = Some r" "length r = length dst"
       "\<forall>p<length dst. r ! p =
          (if p < n \<and> i + 1 \<le> NADINE_I_INDEX e n p
           then ucast (drop_bit (8 * NADINE_I_INDEX e n p) v) else ?d ! p)"
    by auto
  have "r ! p = (if p < n \<and> i \<le> NADINE_I_INDEX e n p
                 then ucast (drop_bit (8 * NADINE_I_INDEX e n p) v) else dst ! p)"
    if p: "p < length dst" for p
  proof (cases "p = ?x")
    case True
    then have "NADINE_I_INDEX e n p = i"
      using INDEX_invol [OF assms(1) i] by simp
    with True x p r(3) [rule_format, OF p] show ?thesis by simp
  next
    case False
    have "NADINE_I_INDEX e n p \<noteq> i" if "p < n"
      using INDEX_invol [OF assms(1) that, of e] False by auto
    with False p r(3) [rule_format, OF p] show ?thesis
      by (auto simp: nth_list_update)
  qed
  with r(1,2) unf show ?case by simp
qed


lemma read_shift_Some:
  assumes "even (sizeof TYPE('a::len))" "sizeof TYPE('a) \<le> length src"
  shows "(nadine_read_shift e src :: 'a word option)
         = Some (le_value (obj_layout e (take (sizeof TYPE('a)) src)))"
proof -
  let ?n = "sizeof TYPE('a)"
  have "\<forall>j<?n. NADINE_I_INDEX e ?n j < length src"
    using INDEX_lt [OF assms(1)] assms(2) by (meson less_le_trans)
  from read_loop_Some [OF this, of 0 0] show ?thesis
    by (simp add: nadine_read_shift_def map_INDEX_layout [OF assms])
qed

lemma write_shift_Some:
  fixes v :: "'a::len word"
  assumes "even (sizeof TYPE('a))" "sizeof TYPE('a) \<le> length dst"
  shows "nadine_write_shift e dst v
         = Some (obj_layout e (le_bytes (sizeof TYPE('a)) v) @ drop (sizeof TYPE('a)) dst)"
proof -
  let ?n = "sizeof TYPE('a)"
  from write_loop_Some [OF assms, of 0 e v] obtain r where
    r: "write_loop e dst v ?n 0 = Some r" "length r = length dst"
       "\<forall>p<length dst. r ! p =
          (if p < ?n \<and> 0 \<le> NADINE_I_INDEX e ?n p
           then ucast (drop_bit (8 * NADINE_I_INDEX e ?n p) v) else dst ! p)"
    by auto
  have "r = obj_layout e (le_bytes ?n v) @ drop ?n dst"
  proof (rule nth_equalityI)
    show "length r = length (obj_layout e (le_bytes ?n v) @ drop ?n dst)"
      using r(2) assms(2) by simp
  next
    fix p assume "p < length r"
    then have p: "p < length dst" using r(2) by simp
    show "r ! p = (obj_layout e (le_bytes ?n v) @ drop ?n dst) ! p"
    proof (cases "p < ?n")
      case True
      have "obj_layout e (le_bytes ?n v) ! p = le_bytes ?n v ! NADINE_I_INDEX e ?n p"
        using obj_layout_nth [of "le_bytes ?n v" p e] assms(1) True by simp
      also have "\<dots> = ucast (drop_bit (8 * NADINE_I_INDEX e ?n p) v)"
        using INDEX_lt [OF assms(1) True, of e] by (simp add: le_bytes_def)
      finally show ?thesis
        using True r(3) [rule_format, OF p] by (simp add: nth_append)
    next
      case False
      then show ?thesis
        using r(3) [rule_format, OF p] p assms(2) by (simp add: nth_append)
    qed
  qed
  with r(1) show ?thesis by (simp add: nadine_write_shift_def)
qed

lemma read_copy_Some:
  assumes "even (sizeof TYPE('a::len))" "0 < sizeof TYPE('a)" "sizeof TYPE('a) \<le> length src"
  shows "(nadine_read_copy native e src :: 'a word option)
         = Some (le_value (obj_layout e (take (sizeof TYPE('a)) src)))"
proof -
  let ?n = "sizeof TYPE('a)"
  have 1: "nadine_i_memcpy (replicate ?n 0) src ?n = Some (take ?n src)"
    using assms by (simp add: memcpy_Some)
  have 2: "nadine_i_xform (take ?n src) ?n (native XOR e)
           = Some (obj_layout (native XOR e) (take ?n src))"
    using assms by (simp add: xform_layout)
  have 3: "obj_unlayout native (obj_layout (native XOR e) (take ?n src))
           = obj_layout e (take ?n src)"
    using assms by (intro layout_compose_read) simp
  show ?thesis
    by (simp add: nadine_read_copy_def 1 2 3 NADINE_I_TYPE_UNPUN_def)
qed

lemma write_copy_Some:
  fixes v :: "'a::len word"
  assumes "even (sizeof TYPE('a))" "0 < sizeof TYPE('a)" "sizeof TYPE('a) \<le> length dst"
  shows "nadine_write_copy native e dst v
         = Some (obj_layout e (le_bytes (sizeof TYPE('a)) v) @ drop (sizeof TYPE('a)) dst)"
proof -
  let ?n = "sizeof TYPE('a)"
  have 1: "nadine_i_xform (NADINE_I_TYPE_PUN native v) ?n (native XOR e)
           = Some (obj_layout e (le_bytes ?n v))"
    using assms by (simp add: xform_layout NADINE_I_TYPE_PUN_def layout_compose_write)
  show ?thesis
    using assms by (simp add: nadine_write_copy_def 1 memcpy_Some)
qed

lemma obj_layout_0 [simp]: "obj_layout 0 bs = bs"
  by (simp add: obj_layout_def)

lemma obj_layout_invol:
  "even (length bs) \<Longrightarrow> obj_layout e (obj_layout e bs) = bs"
  using layout_compose_write [of bs e 0] by simp

lemma read_F_Some:
  fixes fmove :: "'a::len word \<Rightarrow> 'a word"
  assumes "even (sizeof TYPE('a))" "0 < sizeof TYPE('a)" "sizeof TYPE('a) \<le> length src"
  shows "nadine_read_F fmove native e src
         = Some (fmove (fmove (le_value (obj_layout e (take (sizeof TYPE('a)) src)))))"
proof -
  let ?n = "sizeof TYPE('a)"
  have 1: "nadine_i_memcpy (replicate ?n 0) src ?n = Some (take ?n src)"
    using assms by (simp add: memcpy_Some)
  have 2: "nadine_i_xform (take ?n src) ?n (native XOR e)
           = Some (obj_layout (native XOR e) (take ?n src))"
    using assms by (simp add: xform_layout)
  have 3: "obj_unlayout native (obj_layout (native XOR e) (take ?n src))
           = obj_layout e (take ?n src)"
    using assms by (intro layout_compose_read) simp
  show ?thesis
    by (simp add: nadine_read_F_def 1 2 3 NADINE_I_TYPE_UNPUN_def)
qed

lemma write_F_Some:
  fixes v :: "'a::len word"
  assumes "even (sizeof TYPE('a))" "0 < sizeof TYPE('a)" "sizeof TYPE('a) \<le> length dst"
  shows "nadine_write_F fmove native e dst v
         = Some (obj_layout e (le_bytes (sizeof TYPE('a)) (fmove (fmove v)))
                 @ drop (sizeof TYPE('a)) dst)"
  using write_copy_Some [OF assms, of native e "fmove (fmove v)"]
  by (simp add: nadine_write_F_def nadine_write_copy_def)

lemma roundtrip_bytes:
  fixes v :: "'a::len word"
  assumes "16 dvd LENGTH('a)"
  shows "le_value (obj_layout e (take (sizeof TYPE('a))
            (obj_layout e (le_bytes (sizeof TYPE('a)) v) @ drop (sizeof TYPE('a)) dst))) = v"
  using sizeof_facts [OF assms]
  by (simp add: obj_layout_invol le_value_le_bytes)

lemma x87_move_float_7: "x87_move_float 0x40E00000 = 0x40E00000"
  by (simp add: x87_move_float_def)

lemma x87_move_float_snan: "x87_move_float 0x7FA00001 = 0x7FE00001"
  and x87_move_float_qnan: "x87_move_float 0x7FE00001 = 0x7FE00001"
  by (simp_all add: x87_move_float_def)

lemma sizeof_32: "sizeof TYPE(32) = 4"
  by (simp add: sizeof_def CHAR_BIT_def)

lemma upt_4: "[0..<4] = [0, 1, 2, 3 :: nat]"
  by (simp add: upt_rec)

text \<open>
  C2 does not hold as stated: on a host that moves \<^verbatim>\<open>float\<close> objects through
  the x87 unit, \<^verbatim>\<open>nadine_write_N\<close> of the signalling NaN \<open>0x7FA00001\<close> with
  the order big leaves \<open>7F E0 00 01\<close>, and \<^verbatim>\<open>nadine_read_N\<close> of these bytes
  returns \<open>0x7FE00001\<close>.
\<close>

theorem write_read_roundtrip_counterexample:
  "valid_endian NADINE_ENDIAN_LITTLE \<and> valid_endian NADINE_ENDIAN_BIG \<and> 16 dvd LENGTH(32)
   \<and> sizeof TYPE(32) \<le> length [0, 0, 0, 0 :: byte]
   \<and> nadine_write_F x87_move_float NADINE_ENDIAN_LITTLE NADINE_ENDIAN_BIG [0, 0, 0, 0] 0x7FA00001
       = Some [0x7F, 0xE0, 0x00, 0x01]
   \<and> nadine_read_F x87_move_float NADINE_ENDIAN_LITTLE NADINE_ENDIAN_BIG [0x7F, 0xE0, 0x00, 0x01]
       = Some 0x7FE00001
   \<and> (0x7FE00001 :: 32 word) \<noteq> 0x7FA00001"
  by (simp add: valid_endian_def write_F_Some read_F_Some sizeof_32 x87_move_float_snan
      x87_move_float_qnan obj_layout_def le_bytes_def upt_4
      NADINE_ENDIAN_LITTLE_def NADINE_ENDIAN_BIG_def)

text \<open>
  C2, amended. For a type of an even number of bytes without padding bits (every
  supported type: 2, 4 or 8 bytes), a known native order and a valid order
  \<open>endian\<close>: \<^verbatim>\<open>nadine_write_N\<close> into a buffer of at least \<^verbatim>\<open>sizeof(T)\<close>
  bytes returns, and \<^verbatim>\<open>nadine_read_N\<close> of the buffer it leaves, with the same
  order, returns the value written. This holds for the integer functions,
  shift-based and copying, for every value; for the floating-point functions
  it holds on a host that moves floating-point objects with their bits
  unchanged, and on any host for every value that the host's transfer of a
  floating-point object leaves unchanged (on an x87 host: every value but the
  signalling NaNs).
\<close>

theorem write_read_roundtrip:
  fixes v :: "'a::len word"
  assumes "valid_endian native" and "valid_endian endian"
    and "16 dvd LENGTH('a)" and "sizeof TYPE('a) \<le> length buf"
  shows "(\<exists>b. nadine_write_shift endian buf v = Some b \<and> length b = length buf
              \<and> nadine_read_shift endian b = Some v)
       \<and> (\<exists>b. nadine_write_copy native endian buf v = Some b \<and> length b = length buf
              \<and> nadine_read_copy native endian b = Some v)
       \<and> (\<exists>b. nadine_write_F id native endian buf v = Some b \<and> length b = length buf
              \<and> nadine_read_F id native endian b = Some v
              \<and> (fmove v = v \<longrightarrow>
                    nadine_write_F fmove native endian buf v = Some b
                    \<and> nadine_read_F fmove native endian b = Some v))"
proof -
  let ?n = "sizeof TYPE('a)"
  let ?b = "obj_layout endian (le_bytes ?n v) @ drop ?n buf"
  note n = sizeof_facts [OF assms(3)]
  have len: "length ?b = length buf" "?n \<le> length ?b"
    using assms(4) by simp_all
  have rt: "le_value (obj_layout endian (take ?n ?b)) = v"
    by (rule roundtrip_bytes [OF assms(3)])
  have "nadine_write_shift endian buf v = Some ?b"
    using n assms(4) by (simp add: write_shift_Some)
  moreover have "nadine_read_shift endian ?b = Some v"
    using n len(2) by (simp only: read_shift_Some rt)
  moreover have "nadine_write_copy native endian buf v = Some ?b"
    using n assms(4) by (simp add: write_copy_Some)
  moreover have "nadine_read_copy native endian ?b = Some v"
    using n len(2) by (simp only: read_copy_Some rt)
  moreover have "nadine_write_F id native endian buf v = Some ?b"
    using n assms(4) by (simp add: write_F_Some)
  moreover have "nadine_read_F id native endian ?b = Some v"
    using n len(2) by (simp only: read_F_Some rt id_apply)
  moreover have "nadine_write_F fmove native endian buf v = Some ?b" if "fmove v = v"
    using n assms(4) that by (simp add: write_F_Some)
  moreover have "nadine_read_F fmove native endian ?b = Some v" if "fmove v = v"
    using n len(2) by (simp only: read_F_Some rt that)
  ultimately show ?thesis
    using len(1) by blast
qed

theorem write_read_roundtrip_witness:
  "valid_endian 1 \<and> valid_endian 3 \<and> 16 dvd LENGTH(32)
   \<and> sizeof TYPE(32) \<le> length [0, 0, 0, 0 :: byte]
   \<and> x87_move_float 0x40E00000 = 0x40E00000
   \<and> (\<exists>b. nadine_write_shift 3 [0, 0, 0, 0] (0x40E00000 :: 32 word) = Some b
          \<and> length b = length [0, 0, 0, 0 :: byte]
          \<and> nadine_read_shift 3 b = Some (0x40E00000 :: 32 word))
   \<and> (\<exists>b. nadine_write_copy 1 3 [0, 0, 0, 0] (0x40E00000 :: 32 word) = Some b
          \<and> length b = length [0, 0, 0, 0 :: byte]
          \<and> nadine_read_copy 1 3 b = Some (0x40E00000 :: 32 word))
   \<and> (\<exists>b. nadine_write_F x87_move_float 1 3 [0, 0, 0, 0] 0x40E00000 = Some b
          \<and> length b = length [0, 0, 0, 0 :: byte]
          \<and> nadine_read_F x87_move_float 1 3 b = Some 0x40E00000)"
proof -
  have h1: "valid_endian 1" and h2: "valid_endian 3"
    by (simp_all add: valid_endian_cases)
  have h3: "16 dvd LENGTH(32)" and h4: "sizeof TYPE(32) \<le> length [0, 0, 0, 0 :: byte]"
    by (simp_all add: sizeof_def CHAR_BIT_def)
  note h5 = x87_move_float_7
  from write_read_roundtrip [where v = "0x40E00000" and fmove = x87_move_float, OF h1 h2 h3 h4]
    h1 h2 h3 h4 h5
  show ?thesis by blast
qed

text \<open>
  C3. For an integer type of an even number of bytes without padding bits, a
  known native order and a valid order \<open>endian\<close>, the shift-based functions
  (with \<^verbatim>\<open>NADINE_I_INDEX\<close>) and the copying functions (with the transform code
  \<open>native XOR endian\<close>) agree: reading a buffer returns the same value, and
  writing a value leaves the same bytes in the buffer.
\<close>

theorem shift_copy_equivalent:
  fixes v :: "'a::len word"
  assumes "valid_endian native" and "valid_endian endian"
    and "16 dvd LENGTH('a)" and "sizeof TYPE('a) \<le> length buf"
  shows "(\<exists>w :: 'a word. nadine_read_shift endian buf = Some w
              \<and> nadine_read_copy native endian buf = Some w)
       \<and> (\<exists>b. nadine_write_shift endian buf v = Some b
              \<and> nadine_write_copy native endian buf v = Some b)"
proof -
  note n = sizeof_facts [OF assms(3)]
  have "(nadine_read_shift endian buf :: 'a word option) = nadine_read_copy native endian buf"
    using n assms(4) by (simp only: read_shift_Some read_copy_Some)
  moreover have "\<exists>w :: 'a word. nadine_read_shift endian buf = Some w"
    using n assms(4) by (simp only: read_shift_Some) simp
  moreover have "nadine_write_shift endian buf v = nadine_write_copy native endian buf v"
    using n assms(4) by (simp only: write_shift_Some write_copy_Some)
  moreover have "\<exists>b. nadine_write_shift endian buf v = Some b"
    using n assms(4) by (simp only: write_shift_Some) simp
  ultimately show ?thesis by auto
qed

theorem shift_copy_equivalent_witness:
  "valid_endian 0 \<and> valid_endian 3 \<and> 16 dvd LENGTH(32)
   \<and> sizeof TYPE(32) \<le> length [1, 2, 3, 4 :: byte]
   \<and> (\<exists>w :: 32 word. nadine_read_shift 3 [1, 2, 3, 4] = Some w
          \<and> nadine_read_copy 0 3 [1, 2, 3, 4] = Some w)
   \<and> (\<exists>b. nadine_write_shift 3 [1, 2, 3, 4] (0x01020304 :: 32 word) = Some b
          \<and> nadine_write_copy 0 3 [1, 2, 3, 4] (0x01020304 :: 32 word) = Some b)"
proof -
  have h1: "valid_endian 0" and h2: "valid_endian 3"
    by (simp_all add: valid_endian_cases)
  have h3: "16 dvd LENGTH(32)" and h4: "sizeof TYPE(32) \<le> length [1, 2, 3, 4 :: byte]"
    by (simp_all add: sizeof_def CHAR_BIT_def)
  from shift_copy_equivalent [OF h1 h2 h3 h4, of "0x01020304"] h1 h2 h3 h4
  show ?thesis by (simp only: simp_thms)
qed

text \<open>
  C9. For a type of an even number of bytes (every supported type: 2, 4 or 8
  bytes), a known native order and a valid order \<open>endian\<close>:
  \<^verbatim>\<open>NADINE_I_INDEX(endian, i)\<close> is
  below \<open>n = sizeof(T)\<close> for every \<open>i < n\<close>, and on a buffer of exactly
  \<open>n\<close> bytes every read and write function returns: no access of theirs falls
  outside the \<open>n\<close> bytes (an access outside the buffer is \<open>None\<close>).
\<close>

theorem read_write_in_bounds:
  fixes v :: "'a::len word"
  assumes "valid_endian native" and "valid_endian endian"
    and "16 dvd LENGTH('a)" and "length buf = sizeof TYPE('a)" and "i < sizeof TYPE('a)"
  shows "NADINE_I_INDEX endian (sizeof TYPE('a)) i < sizeof TYPE('a)
       \<and> (\<exists>w :: 'a word. nadine_read_shift endian buf = Some w)
       \<and> (\<exists>b. nadine_write_shift endian buf v = Some b \<and> length b = length buf)
       \<and> (\<exists>w :: 'a word. nadine_read_copy native endian buf = Some w)
       \<and> (\<exists>b. nadine_write_copy native endian buf v = Some b \<and> length b = length buf)
       \<and> (\<exists>w :: 'a word. nadine_read_F fmove native endian buf = Some w)
       \<and> (\<exists>b. nadine_write_F fmove native endian buf v = Some b \<and> length b = length buf)"
proof -
  note n = sizeof_facts [OF assms(3)]
  have le: "sizeof TYPE('a) \<le> length buf" using assms(4) by simp
  have "NADINE_I_INDEX endian (sizeof TYPE('a)) i < sizeof TYPE('a)"
    using INDEX_lt [OF n(1) assms(5)] .
  moreover have "\<exists>w :: 'a word. nadine_read_shift endian buf = Some w"
    using n le by (simp only: read_shift_Some) simp
  moreover have "\<exists>b. nadine_write_shift endian buf v = Some b \<and> length b = length buf"
    using n le by (simp only: write_shift_Some) simp
  moreover have "\<exists>w :: 'a word. nadine_read_copy native endian buf = Some w"
    using n le by (simp only: read_copy_Some) simp
  moreover have "\<exists>b. nadine_write_copy native endian buf v = Some b \<and> length b = length buf"
    using n le by (simp only: write_copy_Some) simp
  moreover have "\<exists>w :: 'a word. nadine_read_F fmove native endian buf = Some w"
    using n le by (simp only: read_F_Some) simp
  moreover have "\<exists>b. nadine_write_F fmove native endian buf v = Some b \<and> length b = length buf"
    using n le by (simp only: write_F_Some) simp
  ultimately show ?thesis by blast
qed


theorem read_write_in_bounds_witness:
  "valid_endian 0 \<and> valid_endian 3 \<and> 16 dvd LENGTH(32)
   \<and> length [1, 2, 3, 4 :: byte] = sizeof TYPE(32) \<and> 2 < sizeof TYPE(32)
   \<and> NADINE_I_INDEX 3 (sizeof TYPE(32)) 2 < sizeof TYPE(32)
   \<and> (\<exists>w :: 32 word. nadine_read_shift 3 [1, 2, 3, 4] = Some w)
   \<and> (\<exists>b. nadine_write_shift 3 [1, 2, 3, 4] (0x01020304 :: 32 word) = Some b
          \<and> length b = length [1, 2, 3, 4 :: byte])
   \<and> (\<exists>w :: 32 word. nadine_read_copy 0 3 [1, 2, 3, 4] = Some w)
   \<and> (\<exists>b. nadine_write_copy 0 3 [1, 2, 3, 4] (0x01020304 :: 32 word) = Some b
          \<and> length b = length [1, 2, 3, 4 :: byte])
   \<and> (\<exists>w :: 32 word. nadine_read_F x87_move_float 0 3 [1, 2, 3, 4] = Some w)
   \<and> (\<exists>b. nadine_write_F x87_move_float 0 3 [1, 2, 3, 4] (0x01020304 :: 32 word) = Some b
          \<and> length b = length [1, 2, 3, 4 :: byte])"
proof -
  have h1: "valid_endian 0" and h2: "valid_endian 3"
    by (simp_all add: valid_endian_cases)
  have h3: "16 dvd LENGTH(32)" and h4: "length [1, 2, 3, 4 :: byte] = sizeof TYPE(32)"
    and h5: "2 < sizeof TYPE(32)"
    by (simp_all add: sizeof_def CHAR_BIT_def)
  from read_write_in_bounds [where v = "0x01020304" and fmove = x87_move_float, OF h1 h2 h3 h4 h5]
    h1 h2 h3 h4 h5
  show ?thesis by blast
qed

subsection \<open>Conversion\<close>

lemma and_byte_mask_push:
  fixes x :: "'a::len word"
  shows "push_bit s (x AND push_bit m (mask 8))
         = push_bit (s + m) (ucast (ucast (drop_bit m x) :: byte))"
  by (rule bit_word_eqI) (auto simp: bit_simps)

lemma and_byte_mask_drop:
  fixes x :: "'a::len word"
  assumes "s \<le> m"
  shows "drop_bit s (x AND push_bit m (mask 8))
         = push_bit (m - s) (ucast (ucast (drop_bit m x) :: byte))"
  using assms by (intro bit_word_eqI) (auto simp: bit_simps ac_simps dest: bit_imp_le_length)

lemma WREV2_alt:
  "NADINE_I_WREV2 (x :: 'a::len word) =
     push_bit 8 (x AND push_bit 0 (mask 8)) OR drop_bit 8 (x AND push_bit 8 (mask 8))"
  by (simp add: NADINE_I_WREV2_def mask_eq_exp_minus_1)

lemma WREV4_alt:
  "NADINE_I_WREV4 (x :: 'a::len word) =
     push_bit 24 (x AND push_bit 0 (mask 8))
     OR push_bit 8 (x AND push_bit 8 (mask 8))
     OR drop_bit 8 (x AND push_bit 16 (mask 8))
     OR drop_bit 24 (x AND push_bit 24 (mask 8))"
  by (simp add: NADINE_I_WREV4_def mask_eq_exp_minus_1)

lemma WREV8_alt:
  "NADINE_I_WREV8 (x :: 'a::len word) =
     push_bit 56 (x AND push_bit 0 (mask 8))
     OR push_bit 40 (x AND push_bit 8 (mask 8))
     OR push_bit 24 (x AND push_bit 16 (mask 8))
     OR push_bit 8 (x AND push_bit 24 (mask 8))
     OR drop_bit 8 (x AND push_bit 32 (mask 8))
     OR drop_bit 24 (x AND push_bit 40 (mask 8))
     OR drop_bit 40 (x AND push_bit 48 (mask 8))
     OR drop_bit 56 (x AND push_bit 56 (mask 8))"
  by (simp add: NADINE_I_WREV8_def mask_eq_exp_minus_1)


lemma upt_2: "[0..<2] = [0, 1 :: nat]"
  and upt_8: "[0..<8] = [0, 1, 2, 3, 4, 5, 6, 7 :: nat]"
  by (simp_all add: upt_rec)

lemma WREV2_rev:
  "NADINE_I_WREV2 (v :: 'a::len word) = le_value (rev (le_bytes 2 v))"
proof -
  have "NADINE_I_WREV2 v =
      push_bit (8 + 0) (ucast (ucast (drop_bit 0 v) :: byte))
      OR push_bit (8 - 8) (ucast (ucast (drop_bit 8 v) :: byte))"
    by (simp only: WREV2_alt and_byte_mask_push and_byte_mask_drop [OF order_refl])
  also have "\<dots> = le_value (rev (le_bytes 2 v))"
    by (simp add: le_bytes_def upt_2 ac_simps)
  finally show ?thesis .
qed

lemma WREV4_rev:
  "NADINE_I_WREV4 (v :: 'a::len word) = le_value (rev (le_bytes 4 v))"
proof -
  have le: "(8::nat) \<le> 16" by simp
  have "NADINE_I_WREV4 v =
      push_bit (24 + 0) (ucast (ucast (drop_bit 0 v) :: byte))
      OR push_bit (8 + 8) (ucast (ucast (drop_bit 8 v) :: byte))
      OR push_bit (16 - 8) (ucast (ucast (drop_bit 16 v) :: byte))
      OR push_bit (24 - 24) (ucast (ucast (drop_bit 24 v) :: byte))"
    by (simp only: WREV4_alt and_byte_mask_push and_byte_mask_drop [OF order_refl]
        and_byte_mask_drop [OF le])
  also have "\<dots> = le_value (rev (le_bytes 4 v))"
    by (simp add: le_bytes_def upt_4 ac_simps)
  finally show ?thesis .
qed

lemma WREV8_rev:
  "NADINE_I_WREV8 (v :: 'a::len word) = le_value (rev (le_bytes 8 v))"
proof -
  have le: "(8::nat) \<le> 32" "(24::nat) \<le> 40" "(40::nat) \<le> 48" by simp_all
  have "NADINE_I_WREV8 v =
      push_bit (56 + 0) (ucast (ucast (drop_bit 0 v) :: byte))
      OR push_bit (40 + 8) (ucast (ucast (drop_bit 8 v) :: byte))
      OR push_bit (24 + 16) (ucast (ucast (drop_bit 16 v) :: byte))
      OR push_bit (8 + 24) (ucast (ucast (drop_bit 24 v) :: byte))
      OR push_bit (32 - 8) (ucast (ucast (drop_bit 32 v) :: byte))
      OR push_bit (40 - 24) (ucast (ucast (drop_bit 40 v) :: byte))
      OR push_bit (48 - 40) (ucast (ucast (drop_bit 48 v) :: byte))
      OR push_bit (56 - 56) (ucast (ucast (drop_bit 56 v) :: byte))"
    by (simp only: WREV8_alt and_byte_mask_push and_byte_mask_drop [OF order_refl]
        and_byte_mask_drop [OF le(1)] and_byte_mask_drop [OF le(2)] and_byte_mask_drop [OF le(3)])
  also have "\<dots> = le_value (rev (le_bytes 8 v))"
    by (simp add: le_bytes_def upt_8 ac_simps)
  finally show ?thesis .
qed

lemma le_bytes_le_value:
  assumes "length bs = n" "8 * n \<le> LENGTH('a::len)"
  shows "le_bytes n (le_value bs :: 'a word) = bs"
proof (rule nth_equalityI)
  show "length (le_bytes n (le_value bs :: 'a word)) = length bs"
    using assms by simp
next
  fix i assume "i < length (le_bytes n (le_value bs :: 'a word))"
  then have i: "i < n" by simp
  show "le_bytes n (le_value bs :: 'a word) ! i = bs ! i"
  proof (rule bit_word_eqI)
    fix j assume "j < LENGTH(8)"
    then have j: "j < 8" by simp
    with i assms have "8 * i + j < LENGTH('a)" by simp
    moreover from j have "(8 * i + j) div 8 = i" "(8 * i + j) mod 8 = j" by simp_all
    ultimately show "bit (le_bytes n (le_value bs :: 'a word) ! i) j = bit (bs ! i) j"
      using i j assms by (simp add: bit_le_bytes bit_le_value)
  qed
qed

lemma obj_layout_1 [simp]: "obj_layout 1 bs = rev bs"
  by (simp add: obj_layout_def)

lemma unlayout_layout_xor:
  assumes "even (length bs)"
  shows "obj_unlayout native (obj_layout endian bs) = obj_layout (native XOR endian) bs"
proof -
  have "native XOR (native XOR endian) = endian"
    by (simp flip: xor.assoc)
  with layout_compose_read [OF assms, of native "native XOR endian"] show ?thesis
    by simp
qed

lemma convert_general_Some:
  fixes v :: "'a::len word"
  assumes "16 dvd LENGTH('a)"
  shows "nadine_convert_general native endian v
         = Some (le_value (obj_layout (native XOR endian) (le_bytes (sizeof TYPE('a)) v)))"
proof -
  let ?n = "sizeof TYPE('a)"
  note n = sizeof_facts [OF assms]
  have 1: "nadine_i_xform (NADINE_I_TYPE_PUN native v) ?n (native XOR endian)
           = Some (obj_layout endian (le_bytes ?n v))"
    using n by (simp add: xform_layout NADINE_I_TYPE_PUN_def layout_compose_write)
  show ?thesis
    using n by (simp add: nadine_convert_general_def 1 NADINE_I_TYPE_UNPUN_def unlayout_layout_xor)
qed

lemma convert_F_Some:
  fixes v :: "'a::len word"
  assumes "16 dvd LENGTH('a)"
  shows "nadine_convert_F fmove native endian v
         = Some (fmove (fmove (le_value (obj_layout (native XOR endian)
                   (le_bytes (sizeof TYPE('a)) (fmove (fmove v)))))))"
proof -
  let ?n = "sizeof TYPE('a)"
  note n = sizeof_facts [OF assms]
  have 1: "nadine_i_xform (NADINE_I_TYPE_PUN native (fmove (fmove v))) ?n (native XOR endian)
           = Some (obj_layout endian (le_bytes ?n (fmove (fmove v))))"
    using n by (simp add: xform_layout NADINE_I_TYPE_PUN_def layout_compose_write)
  show ?thesis
    using n by (simp add: nadine_convert_F_def 1 NADINE_I_TYPE_UNPUN_def unlayout_layout_xor)
qed

lemma convert_UI_general:
  fixes v :: "'a::len word"
  assumes "16 dvd LENGTH('a)"
  shows "nadine_convert_UI has_wrev8 native endian v = nadine_convert_general native endian v"
proof -
  let ?n = "sizeof TYPE('a)"
  note n = sizeof_facts [OF assms]
  note g = convert_general_Some [OF assms, of native endian v]
  have same: "Some v = nadine_convert_general native endian v" if "native = endian"
    using that n g by (simp add: le_value_le_bytes)
  have w2: "Some (NADINE_I_WREV2 v) = nadine_convert_general native endian v"
    if "native XOR endian = 1" "?n = 2"
    using that g by (simp add: WREV2_rev)
  have w4: "Some (NADINE_I_WREV4 v) = nadine_convert_general native endian v"
    if "native XOR endian = 1" "?n = 4"
    using that g by (simp add: WREV4_rev)
  have w8: "Some (NADINE_I_WREV8 v) = nadine_convert_general native endian v"
    if "native XOR endian = 1" "?n = 8"
    using that g by (simp add: WREV8_rev)
  have n1: "?n \<noteq> 1" using n(1) by auto
  show ?thesis
    unfolding nadine_convert_UI_def using same w2 w4 w8 n1 by auto
qed

lemma convert_UI_Some:
  fixes v :: "'a::len word"
  assumes "16 dvd LENGTH('a)"
  shows "nadine_convert_UI has_wrev8 native endian v
         = Some (le_value (obj_layout (native XOR endian) (le_bytes (sizeof TYPE('a)) v)))"
  by (simp only: convert_UI_general [OF assms] convert_general_Some [OF assms])

lemma convert_SI_Some:
  fixes v :: "'a::len word"
  assumes "16 dvd LENGTH('a)"
  shows "nadine_convert_SI has_wrev8 native endian v
         = Some (le_value (obj_layout (native XOR endian) (le_bytes (sizeof TYPE('a)) v)))"
  by (simp add: nadine_convert_SI_def convert_UI_Some [OF assms])

lemma canonical_involution:
  fixes v :: "'a::len word"
  assumes "16 dvd LENGTH('a)"
  shows "le_value (obj_layout c (le_bytes (sizeof TYPE('a))
           (le_value (obj_layout c (le_bytes (sizeof TYPE('a)) v)) :: 'a word))) = v"
proof -
  let ?n = "sizeof TYPE('a)"
  note n = sizeof_facts [OF assms]
  have "le_bytes ?n (le_value (obj_layout c (le_bytes ?n v)) :: 'a word)
        = obj_layout c (le_bytes ?n v)"
    using n by (intro le_bytes_le_value) simp_all
  then show ?thesis
    using n by (simp add: obj_layout_invol le_value_le_bytes)
qed

text \<open>
  C1 does not hold as stated: on a little-endian host that moves \<^verbatim>\<open>float\<close>
  objects through the x87 unit, \<^verbatim>\<open>nadine_convert_N\<close> with the order big takes
  the finite value \<open>0x0100A07F\<close> to its reversed pattern, the signalling NaN
  \<open>0x7FA00001\<close>, which is returned as \<open>0x7FE00001\<close>; the second conversion
  gives \<open>0x0100E07F\<close>, not the first value.
\<close>

theorem convert_involution_counterexample:
  "valid_endian NADINE_ENDIAN_LITTLE \<and> valid_endian NADINE_ENDIAN_BIG \<and> 16 dvd LENGTH(32)
   \<and> nadine_convert_F x87_move_float NADINE_ENDIAN_LITTLE NADINE_ENDIAN_BIG 0x0100A07F
       = Some 0x7FE00001
   \<and> nadine_convert_F x87_move_float NADINE_ENDIAN_LITTLE NADINE_ENDIAN_BIG 0x7FE00001
       = Some 0x0100E07F
   \<and> (0x0100E07F :: 32 word) \<noteq> 0x0100A07F"
proof -
  have m: "x87_move_float 0x0100A07F = 0x0100A07F" "x87_move_float 0x0100E07F = 0x0100E07F"
    by (simp_all add: x87_move_float_def)
  have "nadine_convert_F x87_move_float NADINE_ENDIAN_LITTLE NADINE_ENDIAN_BIG 0x0100A07F
        = Some 0x7FE00001"
    by (simp add: convert_F_Some sizeof_32 m x87_move_float_snan x87_move_float_qnan
        obj_layout_def le_bytes_def upt_4 NADINE_ENDIAN_LITTLE_def NADINE_ENDIAN_BIG_def)
  moreover have
    "nadine_convert_F x87_move_float NADINE_ENDIAN_LITTLE NADINE_ENDIAN_BIG 0x7FE00001
     = Some 0x0100E07F"
    by (simp add: convert_F_Some sizeof_32 m x87_move_float_snan x87_move_float_qnan
        obj_layout_def le_bytes_def upt_4 NADINE_ENDIAN_LITTLE_def NADINE_ENDIAN_BIG_def)
  ultimately show ?thesis
    by (simp add: valid_endian_def)
qed

text \<open>
  C1, amended. For a type of an even number of bytes without padding bits (every
  supported type: 2, 4 or 8 bytes), a known native order and a valid order
  \<open>endian\<close>: \<^verbatim>\<open>nadine_convert_N\<close> returns, and applied to its own result
  with the same order it returns the first value. This holds for the unsigned
  and the signed conversion, with or without \<^verbatim>\<open>NADINE_I_WREV8\<close>, for every
  value; for the floating-point conversion it holds on a host that moves
  floating-point objects with their bits unchanged, and on any host whenever
  the host's transfer of a floating-point object leaves both the value and its
  converted pattern unchanged (on an x87 host: whenever neither is a signalling
  NaN).
\<close>

theorem convert_involution:
  fixes v :: "'a::len word"
  assumes "valid_endian native" and "valid_endian endian" and "16 dvd LENGTH('a)"
  shows "(\<exists>w. nadine_convert_UI has_wrev8 native endian v = Some w
              \<and> nadine_convert_UI has_wrev8 native endian w = Some v)
       \<and> (\<exists>w. nadine_convert_SI has_wrev8 native endian v = Some w
              \<and> nadine_convert_SI has_wrev8 native endian w = Some v)
       \<and> (\<exists>w. nadine_convert_F id native endian v = Some w
              \<and> nadine_convert_F id native endian w = Some v
              \<and> (fmove v = v \<and> fmove w = w \<longrightarrow>
                    nadine_convert_F fmove native endian v = Some w
                    \<and> nadine_convert_F fmove native endian w = Some v))"
proof -
  let ?w = "le_value (obj_layout (native XOR endian) (le_bytes (sizeof TYPE('a)) v)) :: 'a word"
  have inv: "le_value (obj_layout (native XOR endian) (le_bytes (sizeof TYPE('a)) ?w)) = v"
    by (rule canonical_involution [OF assms(3)])
  have "nadine_convert_UI has_wrev8 native endian v = Some ?w"
    and "nadine_convert_UI has_wrev8 native endian ?w = Some v"
    by (simp_all only: convert_UI_Some [OF assms(3)] inv)
  moreover have "nadine_convert_SI has_wrev8 native endian v = Some ?w"
    and "nadine_convert_SI has_wrev8 native endian ?w = Some v"
    by (simp_all only: convert_SI_Some [OF assms(3)] inv)
  moreover have "nadine_convert_F id native endian v = Some ?w"
    and "nadine_convert_F id native endian ?w = Some v"
    by (simp_all only: convert_F_Some [OF assms(3)] id_apply inv)
  moreover have "nadine_convert_F fmove native endian v = Some ?w"
    and "nadine_convert_F fmove native endian ?w = Some v"
    if "fmove v = v" "fmove ?w = ?w"
    by (simp_all only: convert_F_Some [OF assms(3)] that inv)
  ultimately show ?thesis by blast
qed

theorem convert_involution_witness:
  "valid_endian 0 \<and> valid_endian 1 \<and> 16 dvd LENGTH(32)
   \<and> x87_move_float 0x40E00000 = 0x40E00000 \<and> x87_move_float 0x0000E040 = 0x0000E040
   \<and> (\<exists>w. nadine_convert_UI True 0 1 (0x40E00000 :: 32 word) = Some w
          \<and> nadine_convert_UI True 0 1 w = Some (0x40E00000 :: 32 word))
   \<and> (\<exists>w. nadine_convert_SI True 0 1 (0x40E00000 :: 32 word) = Some w
          \<and> nadine_convert_SI True 0 1 w = Some (0x40E00000 :: 32 word))
   \<and> nadine_convert_F x87_move_float 0 1 0x40E00000 = Some 0x0000E040
   \<and> nadine_convert_F x87_move_float 0 1 0x0000E040 = Some 0x40E00000"
proof -
  have h1: "valid_endian 0" and h2: "valid_endian 1"
    by (simp_all add: valid_endian_cases)
  have h3: "16 dvd LENGTH(32)"
    by simp
  have m1: "x87_move_float 0x40E00000 = 0x40E00000"
    and m2: "x87_move_float 0x0000E040 = 0x0000E040"
    by (simp_all add: x87_move_float_def)
  have e: "nadine_convert_F id 0 1 (0x40E00000 :: 32 word) = Some 0x0000E040"
    by (simp add: convert_F_Some sizeof_32 obj_layout_def le_bytes_def upt_4)
  note t = convert_involution [OF h1 h2 h3, of True "0x40E00000" x87_move_float]
  from t e m1 m2 have
    "nadine_convert_F x87_move_float 0 1 0x40E00000 = Some 0x0000E040
     \<and> nadine_convert_F x87_move_float 0 1 0x0000E040 = Some 0x40E00000"
    by auto
  with t h1 h2 h3 m1 m2 show ?thesis by blast
qed

lemma xform_0 [simp]: "nadine_i_xform m n 0 = Some m"
  by (simp add: nadine_i_xform_def)

lemma unpun_pun:
  fixes v :: "'a::len word"
  assumes "8 dvd LENGTH('a)"
  shows "NADINE_I_TYPE_UNPUN native (NADINE_I_TYPE_PUN native v) = v"
proof -
  from assms have "LENGTH('a) \<le> 8 * sizeof TYPE('a)"
    by (simp add: sizeof_def CHAR_BIT_def)
  then show ?thesis
    by (simp add: NADINE_I_TYPE_UNPUN_def NADINE_I_TYPE_PUN_def le_value_le_bytes)
qed

lemma convert_F_native:
  fixes v :: "'a::len word"
  assumes "8 dvd LENGTH('a)"
  shows "nadine_convert_F fmove native native v = Some (fmove (fmove (fmove (fmove v))))"
  by (simp add: nadine_convert_F_def unpun_pun [OF assms])

text \<open>
  C5 does not hold as stated for the floating-point conversion: on a host that
  moves floating-point objects through the x87 unit, \<^verbatim>\<open>nadine_convert_N\<close> with
  the native order returns the quiet NaN \<open>0x7FE00001\<close> for the \<^verbatim>\<open>float\<close>
  \<open>0x7FA00001\<close>, and \<open>0x7FFC000000000001\<close> for the \<^verbatim>\<open>double\<close>
  \<open>0x7FF4000000000001\<close>.
\<close>

theorem convert_native_identity_counterexample:
  "valid_endian NADINE_ENDIAN_LITTLE \<and> 8 dvd LENGTH(32) \<and> 8 dvd LENGTH(64)
   \<and> nadine_convert_F x87_move_float NADINE_ENDIAN_LITTLE NADINE_ENDIAN_LITTLE 0x7FA00001
       = Some 0x7FE00001
   \<and> (0x7FE00001 :: 32 word) \<noteq> 0x7FA00001
   \<and> nadine_convert_F x87_move_double NADINE_ENDIAN_LITTLE NADINE_ENDIAN_LITTLE
         0x7FF4000000000001
       = Some 0x7FFC000000000001
   \<and> (0x7FFC000000000001 :: 64 word) \<noteq> 0x7FF4000000000001"
  by (simp add: valid_endian_def convert_F_native x87_move_float_def x87_move_double_def)

text \<open>
  C5, amended. For a type of whole bytes without padding bits and a known native
  order: \<^verbatim>\<open>nadine_convert_N\<close> with the native order as the target returns the
  value unchanged. This holds for the unsigned and the signed conversion, which
  return early, for every value. The floating-point conversion has no early
  return and applies the transform code 0 to the bytes of the value: it returns
  the value unchanged on a host that moves floating-point objects with their
  bits unchanged, and on any host for every value that the host's transfer of
  a floating-point object leaves unchanged (on an x87 host: every value but the
  signalling NaNs).
\<close>

theorem convert_native_identity:
  fixes v :: "'a::len word"
  assumes "valid_endian native" and "8 dvd LENGTH('a)"
  shows "nadine_convert_UI has_wrev8 native native v = Some v
       \<and> nadine_convert_SI has_wrev8 native native v = Some v
       \<and> nadine_convert_F id native native v = Some v
       \<and> (fmove v = v \<longrightarrow> nadine_convert_F fmove native native v = Some v)"
  by (simp add: nadine_convert_UI_def nadine_convert_SI_def convert_F_native [OF assms(2)])

theorem convert_native_identity_witness:
  "valid_endian 0 \<and> 8 dvd LENGTH(64)
   \<and> x87_move_double 0x401C000000000000 = 0x401C000000000000
   \<and> nadine_convert_UI True 0 0 (0x401C000000000000 :: 64 word) = Some 0x401C000000000000
   \<and> nadine_convert_SI True 0 0 (0x401C000000000000 :: 64 word) = Some 0x401C000000000000
   \<and> nadine_convert_F id 0 0 (0x401C000000000000 :: 64 word) = Some 0x401C000000000000
   \<and> nadine_convert_F x87_move_double 0 0 0x401C000000000000 = Some 0x401C000000000000"
proof -
  have h1: "valid_endian 0"
    by (simp add: valid_endian_cases)
  have h2: "8 dvd LENGTH(64)"
    by simp
  have m: "x87_move_double 0x401C000000000000 = 0x401C000000000000"
    by (simp add: x87_move_double_def)
  from convert_native_identity [OF h1 h2, of True "0x401C000000000000" x87_move_double] h1 h2 m
  show ?thesis by blast
qed

lemma unpun_rev_pun:
  fixes v :: "'a::len word"
  assumes "even (sizeof TYPE('a))"
  shows "NADINE_I_TYPE_UNPUN native (rev (NADINE_I_TYPE_PUN native v))
         = (le_value (rev (le_bytes (sizeof TYPE('a)) v)) :: 'a word)"
proof -
  let ?bs = "le_bytes (sizeof TYPE('a)) v"
  have e: "even (length ?bs)" using assms by simp
  have "native XOR (native XOR 1) = 1"
    by (simp flip: xor.assoc)
  with layout_compose_write [OF e, of native "native XOR 1"]
  have "rev (obj_layout native ?bs) = obj_layout (native XOR 1) ?bs"
    by simp
  with layout_compose_read [OF e, of native 1] show ?thesis
    by (simp add: NADINE_I_TYPE_UNPUN_def NADINE_I_TYPE_PUN_def)
qed

text \<open>
  C8. For an unsigned type of 2, 4 or 8 bytes without padding bits, a known
  native order and a valid order \<open>endian\<close> with \<open>native XOR endian = 1\<close>: the
  formula \<^verbatim>\<open>NADINE_I_WREV2\<close>, \<^verbatim>\<open>NADINE_I_WREV4\<close> or \<^verbatim>\<open>NADINE_I_WREV8\<close> of the
  width gives the value whose bytes are the bytes of \<open>v\<close> reversed end to end by
  \<^verbatim>\<open>nadine_i_memrev\<close>; the block below the \<^verbatim>\<open>switch\<close> returns that value too, so
  \<^verbatim>\<open>nadine_convert_N\<close> returns the same result through either branch, whether
  \<^verbatim>\<open>NADINE_I_WREV8\<close> is defined or not.
\<close>

theorem fast_path_equals_general:
  fixes v :: "'a::len word"
  assumes "valid_endian native" and "valid_endian endian" and "native XOR endian = 1"
    and "LENGTH('a) = 16 \<or> LENGTH('a) = 32 \<or> LENGTH('a) = 64"
  shows "(\<exists>p. nadine_i_memrev (NADINE_I_TYPE_PUN native v) (sizeof TYPE('a)) = Some p
            \<and> NADINE_I_TYPE_UNPUN native p =
                (if sizeof TYPE('a) = 2 then NADINE_I_WREV2 v
                 else if sizeof TYPE('a) = 4 then NADINE_I_WREV4 v
                 else NADINE_I_WREV8 v))
       \<and> nadine_convert_general native endian v =
            Some (if sizeof TYPE('a) = 2 then NADINE_I_WREV2 v
                  else if sizeof TYPE('a) = 4 then NADINE_I_WREV4 v
                  else NADINE_I_WREV8 v)
       \<and> nadine_convert_UI has_wrev8 native endian v = nadine_convert_general native endian v"
proof -
  let ?n = "sizeof TYPE('a)"
  let ?w = "if ?n = 2 then NADINE_I_WREV2 v else if ?n = 4 then NADINE_I_WREV4 v
            else NADINE_I_WREV8 v"
  from assms(4) have d: "16 dvd LENGTH('a)" by auto
  note n = sizeof_facts [OF d]
  from assms(4) have cases: "?n = 2 \<or> ?n = 4 \<or> ?n = 8"
    by (auto simp: sizeof_def CHAR_BIT_def)
  have w: "?w = le_value (rev (le_bytes ?n v))"
    using cases by (auto simp: WREV2_rev WREV4_rev WREV8_rev)
  have "nadine_i_memrev (NADINE_I_TYPE_PUN native v) ?n = Some (rev (NADINE_I_TYPE_PUN native v))"
    using n by (simp add: memrev_Some NADINE_I_TYPE_PUN_def)
  moreover have "NADINE_I_TYPE_UNPUN native (rev (NADINE_I_TYPE_PUN native v)) = ?w"
    by (simp only: unpun_rev_pun [OF n(1)] w)
  moreover have "nadine_convert_general native endian v = Some ?w"
    by (simp only: convert_general_Some [OF d] assms(3) obj_layout_1 w)
  moreover have "nadine_convert_UI has_wrev8 native endian v
                 = nadine_convert_general native endian v"
    by (rule convert_UI_general [OF d])
  ultimately show ?thesis by blast
qed

theorem fast_path_equals_general_witness:
  "valid_endian 0 \<and> valid_endian 1 \<and> (0 :: unsigned) XOR 1 = 1
   \<and> (LENGTH(32) = 16 \<or> LENGTH(32) = 32 \<or> LENGTH(32) = 64)
   \<and> (\<exists>p. nadine_i_memrev (NADINE_I_TYPE_PUN 0 (0x01020304 :: 32 word)) (sizeof TYPE(32)) = Some p
          \<and> NADINE_I_TYPE_UNPUN 0 p =
              (if sizeof TYPE(32) = 2 then NADINE_I_WREV2 (0x01020304 :: 32 word)
               else if sizeof TYPE(32) = 4 then NADINE_I_WREV4 (0x01020304 :: 32 word)
               else NADINE_I_WREV8 (0x01020304 :: 32 word)))
   \<and> nadine_convert_general 0 1 (0x01020304 :: 32 word) =
         Some (if sizeof TYPE(32) = 2 then NADINE_I_WREV2 (0x01020304 :: 32 word)
               else if sizeof TYPE(32) = 4 then NADINE_I_WREV4 (0x01020304 :: 32 word)
               else NADINE_I_WREV8 (0x01020304 :: 32 word))
   \<and> nadine_convert_UI True 0 1 (0x01020304 :: 32 word)
       = nadine_convert_general 0 1 (0x01020304 :: 32 word)"
proof -
  have h1: "valid_endian 0" and h2: "valid_endian 1"
    by (simp_all add: valid_endian_cases)
  have h3: "(0 :: unsigned) XOR 1 = 1"
    by simp
  have h4: "LENGTH(32) = 16 \<or> LENGTH(32) = 32 \<or> LENGTH(32) = 64"
    by simp
  from fast_path_equals_general [OF h1 h2 h3 h4, of "0x01020304" True] h1 h2 h3 h4
  show ?thesis by blast
qed

subsection \<open>The bytes of a concrete value\<close>

lemma le_bytes_0x01020304: "le_bytes 4 (0x01020304 :: 32 word) = [0x04, 0x03, 0x02, 0x01]"
  by (simp add: le_bytes_def upt_4)

text \<open>
  C4. Whatever the (known) native order of the host and whatever the buffer of
  four bytes held before, writing the 32-bit value \<open>0x01020304\<close> leaves the bytes
  \<open>04 03 02 01\<close> for the order little, \<open>01 02 03 04\<close> for big, \<open>02 01 04 03\<close> for
  big with swapped pairs and \<open>03 04 01 02\<close> for little with swapped pairs, with
  the copying \<^verbatim>\<open>nadine_write_N\<close> and with the shift-based one.
\<close>

theorem write_0x01020304:
  assumes "valid_endian native"
  shows "nadine_write_copy native NADINE_ENDIAN_LITTLE [a, b, c, d] (0x01020304 :: 32 word)
           = Some [0x04, 0x03, 0x02, 0x01]
       \<and> nadine_write_copy native NADINE_ENDIAN_BIG [a, b, c, d] (0x01020304 :: 32 word)
           = Some [0x01, 0x02, 0x03, 0x04]
       \<and> nadine_write_copy native (NADINE_ENDIAN_BIG OR NADINE_ENDIAN_SWAPCHARS) [a, b, c, d]
             (0x01020304 :: 32 word)
           = Some [0x02, 0x01, 0x04, 0x03]
       \<and> nadine_write_copy native (NADINE_ENDIAN_LITTLE OR NADINE_ENDIAN_SWAPCHARS) [a, b, c, d]
             (0x01020304 :: 32 word)
           = Some [0x03, 0x04, 0x01, 0x02]
       \<and> nadine_write_shift NADINE_ENDIAN_LITTLE [a, b, c, d] (0x01020304 :: 32 word)
           = Some [0x04, 0x03, 0x02, 0x01]
       \<and> nadine_write_shift NADINE_ENDIAN_BIG [a, b, c, d] (0x01020304 :: 32 word)
           = Some [0x01, 0x02, 0x03, 0x04]
       \<and> nadine_write_shift (NADINE_ENDIAN_BIG OR NADINE_ENDIAN_SWAPCHARS) [a, b, c, d]
             (0x01020304 :: 32 word)
           = Some [0x02, 0x01, 0x04, 0x03]
       \<and> nadine_write_shift (NADINE_ENDIAN_LITTLE OR NADINE_ENDIAN_SWAPCHARS) [a, b, c, d]
             (0x01020304 :: 32 word)
           = Some [0x03, 0x04, 0x01, 0x02]"
proof -
  have c: "nadine_write_copy native e [a, b, c, d] (0x01020304 :: 32 word)
           = Some (obj_layout e [0x04, 0x03, 0x02, 0x01])" for e
    using write_copy_Some [of "[a, b, c, d]" native e "0x01020304 :: 32 word"]
    by (simp add: sizeof_32 le_bytes_0x01020304)
  have s: "nadine_write_shift e [a, b, c, d] (0x01020304 :: 32 word)
           = Some (obj_layout e [0x04, 0x03, 0x02, 0x01])" for e
    using write_shift_Some [of "[a, b, c, d]" e "0x01020304 :: 32 word"]
    by (simp add: sizeof_32 le_bytes_0x01020304)
  have l: "obj_layout NADINE_ENDIAN_LITTLE [0x04, 0x03, 0x02, 0x01] = [0x04, 0x03, 0x02, 0x01]"
    "obj_layout NADINE_ENDIAN_BIG [0x04, 0x03, 0x02, 0x01] = [0x01, 0x02, 0x03, 0x04]"
    "obj_layout (NADINE_ENDIAN_BIG OR NADINE_ENDIAN_SWAPCHARS) [0x04, 0x03, 0x02, 0x01]
       = [0x02, 0x01, 0x04, 0x03]"
    "obj_layout (NADINE_ENDIAN_LITTLE OR NADINE_ENDIAN_SWAPCHARS) [0x04, 0x03, 0x02, 0x01]
       = [0x03, 0x04, 0x01, 0x02]"
    by (simp_all add: obj_layout_def NADINE_ENDIAN_LITTLE_def NADINE_ENDIAN_BIG_def
        NADINE_ENDIAN_SWAPCHARS_def)
  show ?thesis
    by (simp only: c s l simp_thms)
qed

theorem write_0x01020304_witness:
  "valid_endian NADINE_ENDIAN_BIG
   \<and> nadine_write_copy NADINE_ENDIAN_BIG (NADINE_ENDIAN_BIG OR NADINE_ENDIAN_SWAPCHARS)
        [0, 0, 0, 0] (0x01020304 :: 32 word) = Some [0x02, 0x01, 0x04, 0x03]
   \<and> nadine_write_shift (NADINE_ENDIAN_LITTLE OR NADINE_ENDIAN_SWAPCHARS)
        [0, 0, 0, 0] (0x01020304 :: 32 word) = Some [0x03, 0x04, 0x01, 0x02]"
proof -
  have h: "valid_endian NADINE_ENDIAN_BIG"
    by (simp add: valid_endian_def)
  from write_0x01020304 [OF h, of 0 0 0 0] h show ?thesis
    by blast
qed

subsection \<open>Native endianness detection\<close>

lemma probe_Some:
  assumes "length pun = n" and "2 \<le> n \<or> (n = 1 \<and> pun ! 0 \<noteq> 0)"
  shows "nadine_endian_native_probe pun n = Some
           (if pun ! 0 \<noteq> 0 then NADINE_ENDIAN_LITTLE
            else if pun ! (n - 1) \<noteq> 0 then NADINE_ENDIAN_BIG
            else if pun ! 1 \<noteq> 0 then NADINE_ENDIAN_LITTLE OR NADINE_ENDIAN_SWAPCHARS
            else if pun ! (n - 2) \<noteq> 0 then NADINE_ENDIAN_BIG OR NADINE_ENDIAN_SWAPCHARS
            else NADINE_ENDIAN_UNKNOWN)"
proof (cases "n = 1")
  case True
  with assms show ?thesis
    by (simp add: nadine_endian_native_probe_def load_def)
next
  case False
  with assms have "2 \<le> n" by auto
  with assms(1) show ?thesis
    by (simp add: nadine_endian_native_probe_def load_def)
qed

text \<open>
  C6. On the bytes \<open>pun\<close> of the value 1 of a type of \<open>n\<close> bytes (a single byte
  is then nonzero), \<^verbatim>\<open>nadine_endian_native_N\<close> returns, with every probe inside
  the \<open>n\<close> bytes: little-endian when byte 0 is nonzero, else big-endian when
  byte \<open>n - 1\<close> is nonzero, else little-endian with swapped pairs when byte 1 is
  nonzero, else big-endian with swapped pairs when byte \<open>n - 2\<close> is nonzero, else
  \<^verbatim>\<open>NADINE_ENDIAN_UNKNOWN\<close>. The result is one of these five values.
\<close>

theorem endian_native_probe:
  assumes "length pun = n" and "2 \<le> n \<or> (n = 1 \<and> pun ! 0 \<noteq> 0)"
  shows "nadine_endian_native_probe pun n = Some
           (if pun ! 0 \<noteq> 0 then NADINE_ENDIAN_LITTLE
            else if pun ! (n - 1) \<noteq> 0 then NADINE_ENDIAN_BIG
            else if pun ! 1 \<noteq> 0 then NADINE_ENDIAN_LITTLE OR NADINE_ENDIAN_SWAPCHARS
            else if pun ! (n - 2) \<noteq> 0 then NADINE_ENDIAN_BIG OR NADINE_ENDIAN_SWAPCHARS
            else NADINE_ENDIAN_UNKNOWN)
       \<and> (\<exists>e. nadine_endian_native_probe pun n = Some e
              \<and> (valid_endian e \<or> e = NADINE_ENDIAN_UNKNOWN))"
  by (simp add: probe_Some [OF assms] valid_endian_def)

theorem endian_native_probe_witness:
  "length [0, 1, 0, 0 :: byte] = 4
   \<and> (2 \<le> (4 :: nat) \<or> ((4 :: nat) = 1 \<and> [0, 1, 0, 0 :: byte] ! 0 \<noteq> 0))
   \<and> nadine_endian_native_probe [0, 1, 0, 0] 4
        = Some (NADINE_ENDIAN_LITTLE OR NADINE_ENDIAN_SWAPCHARS)
   \<and> (\<exists>e. nadine_endian_native_probe [0, 1, 0, 0] 4 = Some e
          \<and> (valid_endian e \<or> e = NADINE_ENDIAN_UNKNOWN))"
proof -
  have h1: "length [0, 1, 0, 0 :: byte] = 4"
    and h2: "2 \<le> (4 :: nat) \<or> ((4 :: nat) = 1 \<and> [0, 1, 0, 0 :: byte] ! 0 \<noteq> 0)"
    by simp_all
  from endian_native_probe [OF h1 h2] show ?thesis
    by (simp add: valid_endian_def)
qed

text \<open>
  The probe of the bytes of \<^verbatim>\<open>(T)1\<close> on a host of one of the four byte orders
  names a byte order in which every value of the type has the bytes it has on
  the host, and the order of the host itself when the type has four bytes or
  more. (With two bytes, swapping the pair and reversing the bytes are the same
  permutation.) So the conversion and copying functions may take \<open>native\<close> both as
  the result of the detection and as the byte order of the host.
\<close>

lemma le_bytes_1_nth:
  "i < n \<Longrightarrow> le_bytes n (1 :: 'a::len word) ! i = (if i = 0 then 1 else 0)"
  by (simp add: le_bytes_def drop_bit_of_1)

lemma pun_1_nth:
  assumes "16 dvd LENGTH('a::len)" "i < sizeof TYPE('a)"
  shows "NADINE_I_TYPE_PUN host (1 :: 'a word) ! i \<noteq> 0
         \<longleftrightarrow> i = NADINE_I_INDEX host (sizeof TYPE('a)) 0"
proof -
  let ?n = "sizeof TYPE('a)"
  note n = sizeof_facts [OF assms(1)]
  have lt: "NADINE_I_INDEX host ?n i < ?n"
    using INDEX_lt [OF n(1) assms(2)] .
  have "NADINE_I_TYPE_PUN host (1 :: 'a word) ! i
        = le_bytes ?n (1 :: 'a word) ! NADINE_I_INDEX host ?n i"
    using obj_layout_nth [of "le_bytes ?n (1 :: 'a word)" i host] n(1) assms(2)
    by (simp add: NADINE_I_TYPE_PUN_def)
  then have "NADINE_I_TYPE_PUN host (1 :: 'a word) ! i \<noteq> 0
             \<longleftrightarrow> NADINE_I_INDEX host ?n i = 0"
    using lt by (simp add: le_bytes_1_nth)
  also have "\<dots> \<longleftrightarrow> i = NADINE_I_INDEX host ?n 0"
    using INDEX_invol [OF n(1) assms(2), of host] INDEX_invol [OF n(1) n(2), of host]
    by metis
  finally show ?thesis .
qed

lemma layout_two_bytes:
  "length bs = 2 \<Longrightarrow> obj_layout 2 bs = obj_layout 1 bs"
  "length bs = 2 \<Longrightarrow> obj_layout 3 bs = bs"
  by (cases bs; cases "tl bs"; simp add: obj_layout_def)+

lemma endian_native_detects_host:
  assumes "valid_endian host" and "16 dvd LENGTH('a::len)"
  shows "\<exists>e. nadine_endian_native_UI host TYPE('a) = Some e \<and> valid_endian e
           \<and> (\<forall>v :: 'a word. NADINE_I_TYPE_PUN e v = NADINE_I_TYPE_PUN host v)
           \<and> (32 \<le> LENGTH('a) \<longrightarrow> e = host)"
proof -
  let ?n = "sizeof TYPE('a)"
  let ?pun = "NADINE_I_TYPE_PUN host (1 :: 'a word)"
  note n = sizeof_facts [OF assms(2)]
  have len: "length ?pun = ?n"
    by (simp add: NADINE_I_TYPE_PUN_def)
  have n2: "2 \<le> ?n" using n(1,2) by (auto elim!: evenE)
  then have p: "2 \<le> ?n \<or> (?n = 1 \<and> ?pun ! 0 \<noteq> 0)" "0 < ?n" "?n - 1 < ?n" "1 < ?n" "?n - 2 < ?n"
    by simp_all
  note nz = pun_1_nth [OF assms(2), of _ host]
  note pr = probe_Some [OF len p(1), unfolded nz [OF p(2)] nz [OF p(3)] nz [OF p(4)] nz [OF p(5)]]
  have odd: "odd (?n - Suc 0)" using n(1) n2 by simp
  from n(1) obtain k where k: "?n = 2 * k" by (elim evenE)
  with n2 have "k = 1 \<or> 2 \<le> k" by arith
  with k consider "?n = 2" | "4 \<le> ?n" by auto
  then show ?thesis
  proof cases
    case 1
    then have L: "LENGTH('a) = 16" using n(3) by simp
    have two: "length (le_bytes ?n v) = 2" for v :: "'a word" using 1 by simp
    show ?thesis
      using assms(1) pr 1 L layout_two_bytes [OF two]
      unfolding valid_endian_cases nadine_endian_native_UI_def
      by (auto simp: INDEX_alt NADINE_I_TYPE_PUN_def NADINE_ENDIAN_LITTLE_def
          NADINE_ENDIAN_BIG_def NADINE_ENDIAN_SWAPCHARS_def)
  next
    case 2
    then show ?thesis
      using assms(1) pr odd
      unfolding valid_endian_cases nadine_endian_native_UI_def
      by (auto simp: INDEX_alt NADINE_ENDIAN_LITTLE_def
          NADINE_ENDIAN_BIG_def NADINE_ENDIAN_SWAPCHARS_def)
  qed
qed

subsection \<open>The vectors of the test program\<close>

text \<open>
  The vectors of \<^verbatim>\<open>nadine_test.c\<close> for 16 and 64 bits and for the \<^verbatim>\<open>float\<close>
  \<open>7.0\<close> (bit pattern \<open>0x40E00000\<close>), on the functions of the model.
\<close>

lemma sizeof_16: "sizeof TYPE(16) = 2"
  and sizeof_64: "sizeof TYPE(64) = 8"
  by (simp_all add: sizeof_def CHAR_BIT_def)

lemma test_u16_read:
  "nadine_read_shift NADINE_ENDIAN_BIG [1, 2] = Some (0x0102 :: 16 word)"
  "nadine_read_shift NADINE_ENDIAN_LITTLE [1, 2] = Some (0x0201 :: 16 word)"
  "nadine_read_copy native NADINE_ENDIAN_BIG [1, 2] = Some (0x0102 :: 16 word)"
  "nadine_read_copy native NADINE_ENDIAN_LITTLE [1, 2] = Some (0x0201 :: 16 word)"
  by (simp_all add: read_shift_Some read_copy_Some sizeof_16 obj_layout_def
      NADINE_ENDIAN_BIG_def NADINE_ENDIAN_LITTLE_def)

lemma test_u64_read:
  "nadine_read_shift NADINE_ENDIAN_BIG [1, 2, 3, 4, 5, 6, 7, 8]
     = Some (0x0102030405060708 :: 64 word)"
  "nadine_read_copy native NADINE_ENDIAN_LITTLE [1, 2, 3, 4, 5, 6, 7, 8]
     = Some (0x0807060504030201 :: 64 word)"
  by (simp_all add: read_shift_Some read_copy_Some sizeof_64 obj_layout_def
      NADINE_ENDIAN_BIG_def NADINE_ENDIAN_LITTLE_def)

lemma test_u64_write:
  "nadine_write_shift NADINE_ENDIAN_BIG [a, b, c, d, e, f, g, h] (0x0102030405060708 :: 64 word)
     = Some [1, 2, 3, 4, 5, 6, 7, 8]"
  "nadine_write_copy native NADINE_ENDIAN_LITTLE [a, b, c, d, e, f, g, h]
       (0x0102030405060708 :: 64 word)
     = Some [8, 7, 6, 5, 4, 3, 2, 1]"
  by (simp_all add: write_shift_Some write_copy_Some sizeof_64 obj_layout_def le_bytes_def upt_8
      NADINE_ENDIAN_BIG_def NADINE_ENDIAN_LITTLE_def)

lemma test_u64_convert:
  "nadine_convert_UI has_wrev8 NADINE_ENDIAN_LITTLE NADINE_ENDIAN_BIG (0x0102030405060708 :: 64 word)
     = Some 0x0807060504030201"
  "nadine_convert_UI has_wrev8 NADINE_ENDIAN_BIG NADINE_ENDIAN_BIG (0x0102030405060708 :: 64 word)
     = Some 0x0102030405060708"
  by (simp_all add: convert_UI_Some sizeof_64 obj_layout_def le_bytes_def upt_8
      NADINE_ENDIAN_BIG_def NADINE_ENDIAN_LITTLE_def)

lemma test_float:
  "nadine_write_F x87_move_float native NADINE_ENDIAN_BIG [a, b, c, d] 0x40E00000
     = Some [0x40, 0xE0, 0x00, 0x00]"
  "nadine_write_F id native NADINE_ENDIAN_LITTLE [a, b, c, d] (0x40E00000 :: 32 word)
     = Some [0x00, 0x00, 0xE0, 0x40]"
  "nadine_read_F x87_move_float native NADINE_ENDIAN_BIG [0x40, 0xE0, 0x00, 0x00]
     = Some 0x40E00000"
  by (simp_all add: write_F_Some read_F_Some sizeof_32 obj_layout_def le_bytes_def upt_4
      x87_move_float_7 NADINE_ENDIAN_BIG_def NADINE_ENDIAN_LITTLE_def)

text \<open>
  The even width matters for the shift-based functions: with one byte and
  \<^verbatim>\<open>NADINE_ENDIAN_SWAPCHARS\<close> the index is 1, outside the value. No type the
  library defines functions for has one byte when \<^verbatim>\<open>CHAR_BIT\<close> is 8.
\<close>

lemma INDEX_one_byte: "NADINE_I_INDEX NADINE_ENDIAN_SWAPCHARS 1 0 = 1"
  by (simp add: NADINE_I_INDEX_def NADINE_ENDIAN_SWAPCHARS_def)

end
